theory Spec2Isabelle
  imports Complex_Main "HOL-Library.Log_Nat"
begin

section \<open>Shared conventions\<close>

text \<open>
  Instants (\<^verbatim>\<open>datetime\<close>) are rational numbers of seconds; a \<^verbatim>\<open>timedelta(seconds=n)\<close>
  is the number \<open>n\<close>. Scores and the confidence threshold are finite floats that the source
  only compares, so they are the rationals they denote. The coordinates of a box are floats
  (\<^verbatim>\<open>box: List[float]\<close>, the \<^verbatim>\<open>tolist\<close> of a row of the processor's boxes) on which the
  source computes: they are values of \<open>pyfloat\<close>, with the rounding of IEEE 754 binary64. The threshold \<^verbatim>\<open>(persistence_seconds / check_interval) * 0.7\<close> is computed in
  exact rationals. Every \<^verbatim>\<open>raise\<close> of the source is a value \<open>Inl e\<close>.
\<close>

type_synonym instant = rat

datatype py_error = ZeroDivisionError | ValueError | ProcessorError

definition py_truediv :: "rat \<Rightarrow> rat \<Rightarrow> py_error + rat" where
  "py_truediv a b = (if b = 0 then Inl ZeroDivisionError else Inr (a / b))"

section \<open>Python floats\<close>

text \<open>A Python float is an IEEE 754 binary64 number: a finite value (a rational; the two
  zeros are not told apart, nothing below depends on the sign of a zero), an infinity or
  a NaN.\<close>

datatype pyfloat = Finite rat | PosInf | NegInf | NaN

text \<open>Rounding to the nearest integer, ties to the even one.\<close>

definition round_half_even :: "rat \<Rightarrow> int" where
  "round_half_even x =
     (let f = \<lfloor>x\<rfloor>; r = x - of_int f in
      if r < 1 / 2 then f else if 1 / 2 < r then f + 1 else if even f then f else f + 1)"

text \<open>The integer \<open>k\<close> with \<open>2 ^ k \<le> a < 2 ^ (k + 1)\<close>, for \<open>a > 0\<close>.\<close>

definition floor_log2 :: "rat \<Rightarrow> int" where
  "floor_log2 a = (if 1 \<le> a then bitlen \<lfloor>a\<rfloor> - 1 else - bitlen (\<lceil>1 / a\<rceil> - 1))"

text \<open>The binary64 number nearest to a rational (ties to even): 53 significant bits, the
  least exponent of a unit in the last place is -1074 (subnormal numbers), and a result of
  magnitude \<open>2 ^ 1024\<close> or more is an infinity.\<close>

definition binary64 :: "rat \<Rightarrow> pyfloat" where
  "binary64 x =
     (if x = 0 then Finite 0
      else
        (let a = \<bar>x\<bar>;
             e = max (floor_log2 a - 52) (- 1074);
             m = round_half_even (a / 2 powi e);
             v = of_int m * 2 powi e
         in if 2 powi 1024 \<le> v then (if 0 < x then PosInf else NegInf)
            else Finite (if 0 < x then v else - v)))"

text \<open>\<^verbatim>\<open>a - b\<close> on floats: no exception, an overflow gives an infinity.\<close>

fun float_sub :: "pyfloat \<Rightarrow> pyfloat \<Rightarrow> pyfloat" where
  "float_sub NaN b = NaN"
| "float_sub a NaN = NaN"
| "float_sub PosInf PosInf = NaN"
| "float_sub NegInf NegInf = NaN"
| "float_sub PosInf b = PosInf"
| "float_sub NegInf b = NegInf"
| "float_sub (Finite x) PosInf = NegInf"
| "float_sub (Finite x) NegInf = PosInf"
| "float_sub (Finite x) (Finite y) = binary64 (x - y)"

fun float_abs :: "pyfloat \<Rightarrow> pyfloat" where
  "float_abs (Finite x) = Finite \<bar>x\<bar>"
| "float_abs PosInf = PosInf"
| "float_abs NegInf = PosInf"
| "float_abs NaN = NaN"

text \<open>\<^verbatim>\<open>a > b\<close> on floats: False when either side is a NaN.\<close>

fun float_gt :: "pyfloat \<Rightarrow> pyfloat \<Rightarrow> bool" where
  "float_gt NaN b = False"
| "float_gt a NaN = False"
| "float_gt a PosInf = False"
| "float_gt PosInf b = True"
| "float_gt NegInf b = False"
| "float_gt (Finite x) NegInf = True"
| "float_gt (Finite x) (Finite y) = (y < x)"

text \<open>The sign of a float other than a NaN, as -1, 0 or 1.\<close>

fun float_sgn :: "pyfloat \<Rightarrow> rat" where
  "float_sgn (Finite x) = sgn x"
| "float_sgn PosInf = 1"
| "float_sgn NegInf = - 1"
| "float_sgn NaN = 0"

text \<open>\<^verbatim>\<open>a / b\<close> on floats: ZeroDivisionError when the divisor is zero, whatever the dividend;
  otherwise the IEEE 754 quotient, an overflow giving an infinity.\<close>

fun float_truediv :: "pyfloat \<Rightarrow> pyfloat \<Rightarrow> py_error + pyfloat" where
  "float_truediv a (Finite y) =
     (if y = 0 then Inl ZeroDivisionError
      else case a of
             Finite x \<Rightarrow> Inr (binary64 (x / y))
           | NaN \<Rightarrow> Inr NaN
           | _ \<Rightarrow> Inr (if 0 < float_sgn a * y then PosInf else NegInf))"
| "float_truediv NaN b = Inr NaN"
| "float_truediv a NaN = Inr NaN"
| "float_truediv (Finite x) b = Inr (Finite 0)"
| "float_truediv a b = Inr NaN"

section \<open>scenario_sleeping_detector.py\<close>

datatype orientation = Horizontal | Vertical

text \<open>What \<^verbatim>\<open>processor.set_text_prompt\<close> returns for one prompt: the three lists read with
  \<^verbatim>\<open>output.get(..., [])\<close>. A mask is represented by its shape.\<close>

record sam_output =
  masks :: "nat list list"
  scores :: "rat list"
  boxes :: "pyfloat list list"

text \<open>The dictionary \<^verbatim>\<open>best_detection\<close> as the inner loop builds it (no orientation yet).\<close>

record candidate =
  prompt :: string
  score :: rat
  box :: "pyfloat list option"
  mask_shape :: "nat list option"
  timestamp :: instant

text \<open>The same dictionary after \<^verbatim>\<open>best_detection["orientation"] = orientation\<close>; only such
  dictionaries enter \<^verbatim>\<open>detections_history\<close>.\<close>

record detection = candidate +
  orientation :: orientation

record sleeping_detector =
  confidence_threshold :: rat
  persistence_seconds :: int
  check_interval :: int
  detections_history :: "detection list"
  last_check_time :: "instant option"
  alert_cooldown_until :: "instant option"

definition sleep_prompts :: "string list" where
  "sleep_prompts = [''person sleeping'', ''person lying down'', ''person laying down'']"

text \<open>The state after \<^verbatim>\<open>__init__\<close>.\<close>

definition init_detector :: "rat \<Rightarrow> int \<Rightarrow> int \<Rightarrow> sleeping_detector" where
  "init_detector thr ps ci =
     \<lparr>confidence_threshold = thr, persistence_seconds = ps, check_interval = ci,
      detections_history = [], last_check_time = None, alert_cooldown_until = None\<rparr>"

definition should_check_frame :: "sleeping_detector \<Rightarrow> instant \<Rightarrow> bool" where
  "should_check_frame d current_time =
     (case last_check_time d of
        None \<Rightarrow> True
      | Some l \<Rightarrow> current_time - l \<ge> of_int (check_interval d))"

text \<open>The inner loop \<^verbatim>\<open>for i, score in enumerate(scores)\<close>; the accumulator is the pair
  \<^verbatim>\<open>(best_score, best_detection)\<close>.\<close>

fun scan_scores ::
  "rat \<Rightarrow> string \<Rightarrow> sam_output \<Rightarrow> instant \<Rightarrow> nat \<Rightarrow> rat list \<Rightarrow>
   rat \<times> candidate option \<Rightarrow> rat \<times> candidate option" where
  "scan_scores thr p out ts i [] acc = acc"
| "scan_scores thr p out ts i (sc # rest) (best_score, best_detection) =
     scan_scores thr p out ts (Suc i) rest
       (if sc > thr \<and> sc > best_score
        then (sc, Some \<lparr>prompt = p, score = sc,
                box = (if length (boxes out) > i then Some (boxes out ! i) else None),
                mask_shape = (if length (masks out) > i then Some (masks out ! i) else None),
                timestamp = ts\<rparr>)
        else (best_score, best_detection))"

text \<open>The outer loop \<^verbatim>\<open>for prompt in self.sleep_prompts\<close>. The processor is a function from
  the prompt to the output for the current frame; \<open>Inl\<close> is an exception raised by the
  processor (a failure of \<^verbatim>\<open>set_image\<close> or of the colour conversion has the same effect as
  the first prompt raising).\<close>

fun scan_prompts ::
  "rat \<Rightarrow> (string \<Rightarrow> py_error + sam_output) \<Rightarrow> instant \<Rightarrow> string list \<Rightarrow>
   rat \<times> candidate option \<Rightarrow> py_error + (rat \<times> candidate option)" where
  "scan_prompts thr processor ts [] acc = Inr acc"
| "scan_prompts thr processor ts (p # ps) acc =
     (case processor p of
        Inl e \<Rightarrow> Inl e
      | Inr out \<Rightarrow> scan_prompts thr processor ts ps (scan_scores thr p out ts 0 (scores out) acc))"

text \<open>The literal \<^verbatim>\<open>1.2\<close> is the float nearest to 6/5.\<close>

definition float_1_2 :: pyfloat where
  "float_1_2 = binary64 (6 / 5)"

text \<open>\<^verbatim>\<open>x1, y1, x2, y2 = box\<close> raises ValueError unless the list has four elements. The
  \<^verbatim>\<open>0\<close> of the \<^verbatim>\<open>else\<close> is the integer 0, which compares like the float 0.\<close>

definition analyze_orientation :: "pyfloat list \<Rightarrow> py_error + orientation" where
  "analyze_orientation b =
     (case b of
        [x1, y1, x2, y2] \<Rightarrow>
          (let width = float_abs (float_sub x2 x1); height = float_abs (float_sub y2 y1) in
           case (if float_gt height (Finite 0) then float_truediv width height
                 else Inr (Finite 0)) of
             Inl e \<Rightarrow> Inl e
           | Inr aspect_ratio \<Rightarrow>
               Inr (if float_gt aspect_ratio float_1_2 then Horizontal else Vertical))
      | _ \<Rightarrow> Inl ValueError)"

definition add_to_history :: "sleeping_detector \<Rightarrow> detection \<Rightarrow> sleeping_detector" where
  "add_to_history d det =
     (let appended = detections_history d @ [det];
          cutoff_time = timestamp det - 60
      in d\<lparr>detections_history := filter (\<lambda>x. timestamp x > cutoff_time) appended\<rparr>)"

text \<open>The list \<^verbatim>\<open>recent_detections\<close> of \<^verbatim>\<open>_check_persistence\<close>.\<close>

definition recent_detections :: "sleeping_detector \<Rightarrow> instant \<Rightarrow> detection list" where
  "recent_detections d current_time =
     (let cutoff_time = current_time - of_int (persistence_seconds d)
      in filter (\<lambda>x. timestamp x > cutoff_time \<and> orientation x = Horizontal)
           (detections_history d))"

definition check_persistence :: "sleeping_detector \<Rightarrow> instant \<Rightarrow> py_error + bool" where
  "check_persistence d current_time =
     (if length (detections_history d) < 2 then Inr False
      else case py_truediv (of_int (persistence_seconds d)) (of_int (check_interval d)) of
             Inl e \<Rightarrow> Inl e
           | Inr q \<Rightarrow> Inr (of_nat (length (recent_detections d current_time)) \<ge> q * (7 / 10)))"

text \<open>The alert dictionary, nested keys flattened. \<open>when_\<close> holds the instant that the source
  renders with \<^verbatim>\<open>isoformat\<close>, \<open>why_seconds\<close> the number that the text of \<^verbatim>\<open>why\<close> interpolates.
  The fixed texts are written without the diacritics of the source.\<close>

record alert =
  what :: string
  when_ :: instant
  location :: string
  bounding_box :: "pyfloat list option"
  alert_orientation :: orientation
  who :: string
  why_seconds :: int
  method_ :: string
  prompt_used :: string
  confidence_score :: rat
  detection_count_in_period :: nat
  alert_persistence_seconds :: int
  alert_type :: string
  severity :: string
  requires_action :: bool

definition create_alert :: "sleeping_detector \<Rightarrow> detection \<Rightarrow> instant \<Rightarrow> alert" where
  "create_alert d det ts =
     \<lparr>what = ''Pessoa dormindo detectada'',
      when_ = ts,
      location = ''Camera Feed'',
      bounding_box = box det,
      alert_orientation = orientation det,
      who = ''Sistema de Deteccao SAM3'',
      why_seconds = persistence_seconds d,
      method_ = ''SAM3 Text Prompt Detection'',
      prompt_used = prompt det,
      confidence_score = score det,
      detection_count_in_period = length (detections_history d),
      alert_persistence_seconds = persistence_seconds d,
      alert_type = ''sleeping_person'',
      severity = ''medium'',
      requires_action = True\<rparr>"

definition with_orientation :: "candidate \<Rightarrow> orientation \<Rightarrow> detection" where
  "with_orientation c ori =
     \<lparr>prompt = prompt c, score = score c, box = box c, mask_shape = mask_shape c,
      timestamp = timestamp c, orientation = ori\<rparr>"

text \<open>The cooldown written after an alert: \<^verbatim>\<open>timedelta(seconds=30)\<close>.\<close>

definition cooldown_seconds :: rat where
  "cooldown_seconds = 30"

text \<open>The part of \<^verbatim>\<open>detect_sleeping_person\<close> after the search for the best detection.
  Every exception is caught by the \<^verbatim>\<open>except Exception\<close> of the caller, which returns None
  and keeps the state as it was when the exception was raised.\<close>

definition handle_best ::
  "sleeping_detector \<Rightarrow> candidate option \<Rightarrow> instant \<Rightarrow> alert option \<times> sleeping_detector" where
  "handle_best d best_detection ts =
     (case best_detection of
        None \<Rightarrow> (None, d)
      | Some c \<Rightarrow>
          (case box c of
             None \<Rightarrow> (None, d)
           | Some b \<Rightarrow>
               if b = [] then (None, d)
               else (case analyze_orientation b of
                       Inl e \<Rightarrow> (None, d)
                     | Inr ori \<Rightarrow>
                         if ori = Horizontal then
                           (let det = with_orientation c ori;
                                d2 = add_to_history d det
                            in case check_persistence d2 ts of
                                 Inl e \<Rightarrow> (None, d2)
                               | Inr persisted \<Rightarrow>
                                   if persisted then
                                     (Some (create_alert d2 det ts),
                                      d2\<lparr>alert_cooldown_until := Some (ts + cooldown_seconds)\<rparr>)
                                   else (None, d2))
                         else (None, d))))"

definition in_cooldown :: "sleeping_detector \<Rightarrow> instant \<Rightarrow> bool" where
  "in_cooldown d ts = (case alert_cooldown_until d of None \<Rightarrow> False | Some c \<Rightarrow> ts < c)"

definition detect_sleeping_person ::
  "sleeping_detector \<Rightarrow> (string \<Rightarrow> py_error + sam_output) \<Rightarrow> instant \<Rightarrow>
   alert option \<times> sleeping_detector" where
  "detect_sleeping_person d processor ts =
     (if \<not> should_check_frame d ts then (None, d)
      else
        (let d1 = d\<lparr>last_check_time := Some ts\<rparr> in
         if in_cooldown d1 ts then (None, d1)
         else (case scan_prompts (confidence_threshold d1) processor ts sleep_prompts (0, None) of
                 Inl e \<Rightarrow> (None, d1)
               | Inr (best_score, best_detection) \<Rightarrow> handle_best d1 best_detection ts)))"

text \<open>A run of the detector over a sequence of frames, each with its instant.\<close>

fun run ::
  "sleeping_detector \<Rightarrow> ((string \<Rightarrow> py_error + sam_output) \<times> instant) list \<Rightarrow>
   alert option list \<times> sleeping_detector" where
  "run d [] = ([], d)"
| "run d ((processor, ts) # calls) =
     (case detect_sleeping_person d processor ts of
        (r, d1) \<Rightarrow> (case run d1 calls of (rs, d2) \<Rightarrow> (r # rs, d2)))"

section \<open>webhook_sender.py\<close>

record webhook_sender =
  webhook_url :: string
  timeout :: int
  retry_attempts :: int
  retry_delay :: int

text \<open>What one \<^verbatim>\<open>requests.post\<close> does: it returns a response with a status code, or raises.\<close>

datatype response = Status int | Timeout | ConnectionError | OtherException

text \<open>The effects of \<^verbatim>\<open>send_alert\<close> in the order they happen: the POST of an attempt and
  \<^verbatim>\<open>time.sleep\<close>.\<close>

datatype event = Post int | Sleep int

definition is_success :: "response \<Rightarrow> bool" where
  "is_success r = (case r of Status c \<Rightarrow> c \<in> set [200, 201, 202] | _ \<Rightarrow> False)"

text \<open>The loop \<^verbatim>\<open>for attempt in range(1, self.retry_attempts + 1)\<close> over the attempts that
  are left. The endpoint gives the outcome of each attempt. \<^verbatim>\<open>time.sleep\<close> is outside the
  \<^verbatim>\<open>try\<close> and raises ValueError on a negative length.\<close>

fun send_attempts ::
  "webhook_sender \<Rightarrow> (int \<Rightarrow> response) \<Rightarrow> int list \<Rightarrow> event list \<Rightarrow>
   (py_error + bool) \<times> event list" where
  "send_attempts w endpoint [] trace = (Inr False, trace)"
| "send_attempts w endpoint (attempt # rest) trace =
     (let trace1 = trace @ [Post attempt] in
      if is_success (endpoint attempt) then (Inr True, trace1)
      else if attempt < retry_attempts w then
        (if retry_delay w < 0 then (Inl ValueError, trace1)
         else send_attempts w endpoint rest (trace1 @ [Sleep (retry_delay w)]))
      else send_attempts w endpoint rest trace1)"

definition send_alert ::
  "webhook_sender \<Rightarrow> (int \<Rightarrow> response) \<Rightarrow> (py_error + bool) \<times> event list" where
  "send_alert w endpoint = send_attempts w endpoint [1..retry_attempts w] []"

definition is_post :: "event \<Rightarrow> bool" where
  "is_post e = (case e of Post a \<Rightarrow> True | Sleep s \<Rightarrow> False)"

text \<open>The number of POST requests in a trace.\<close>

definition attempts_made :: "event list \<Rightarrow> nat" where
  "attempts_made trace = length (filter is_post trace)"

section \<open>Scenarios and reference definitions\<close>

text \<open>The number of samples that the specification requires, in its words:
  \<open>required = ceil (persistence_seconds / check_interval_seconds * 0.7)\<close>.\<close>

definition spec_required :: "int \<Rightarrow> int \<Rightarrow> int" where
  "spec_required ps ci = \<lceil>(of_int ps :: rat) / of_int ci * (7 / 10)\<rceil>"

text \<open>A box 10 wide and 2 high, and a square box of side 10.\<close>

definition lying_box :: "pyfloat list" where
  "lying_box = [Finite 0, Finite 0, Finite 10, Finite 2]"

definition square_box :: "pyfloat list" where
  "square_box = [Finite 0, Finite 0, Finite 10, Finite 10]"

text \<open>A qualifying sample: a horizontal detection with the box \<open>lying_box\<close> at instant \<open>t\<close> with
  score \<open>sc\<close>.\<close>

definition sample_at :: "instant \<Rightarrow> rat \<Rightarrow> detection" where
  "sample_at t sc =
     \<lparr>prompt = ''person sleeping'', score = sc, box = Some lying_box, mask_shape = None,
      timestamp = t, orientation = Horizontal\<rparr>"

text \<open>A frame for which the processor finds the given scores and boxes under the first prompt
  and nothing under the others.\<close>

definition frame_with :: "rat list \<Rightarrow> pyfloat list list \<Rightarrow> string \<Rightarrow> py_error + sam_output" where
  "frame_with scs bxs p =
     (if p = ''person sleeping'' then Inr \<lparr>masks = [], scores = scs, boxes = bxs\<rparr>
      else Inr \<lparr>masks = [], scores = [], boxes = []\<rparr>)"

text \<open>A detector with persistence 2 s and interval 2 s after one qualifying sample at instant 0,
  the frame of a lying person, and the alert and the state that the call at instant 10 gives.\<close>

definition one_sample_state :: sleeping_detector where
  "one_sample_state = (init_detector (3 / 10) 2 2)
     \<lparr>detections_history := [sample_at 0 (9 / 10)], last_check_time := Some 0\<rparr>"

definition lying_frame :: "string \<Rightarrow> py_error + sam_output" where
  "lying_frame = frame_with [1 / 2] [lying_box]"

definition fired_alert :: alert where
  "fired_alert = create_alert
     ((init_detector (3 / 10) 2 2)\<lparr>detections_history := [sample_at 0 (9 / 10), sample_at 10 (1 / 2)]\<rparr>)
     (sample_at 10 (1 / 2)) 10"

definition fired_state :: sleeping_detector where
  "fired_state = (init_detector (3 / 10) 2 2)
     \<lparr>detections_history := [sample_at 0 (9 / 10), sample_at 10 (1 / 2)],
      last_check_time := Some 10, alert_cooldown_until := Some 40\<rparr>"

text \<open>The invariant of both loops: the candidate kept is above the threshold and carries
  the best score so far.\<close>

definition best_ok :: "rat \<Rightarrow> rat \<times> candidate option \<Rightarrow> bool" where
  "best_ok thr acc = (case snd acc of None \<Rightarrow> True | Some c \<Rightarrow> score c = fst acc \<and> thr < score c)"

text \<open>The default configuration after qualifying samples at 0, 2 and 4, the first with score 0.9.\<close>

definition three_sample_state :: sleeping_detector where
  "three_sample_state = (init_detector (3 / 10) 10 2)
     \<lparr>detections_history := [sample_at 0 (9 / 10), sample_at 2 (1 / 2), sample_at 4 (1 / 2)],
      last_check_time := Some 4\<rparr>"

text \<open>The state after a call at instant 70 on \<open>one_sample_state\<close>: the sample of instant 0 is gone.\<close>

definition pruned_state :: sleeping_detector where
  "pruned_state = (init_detector (3 / 10) 2 2)
     \<lparr>detections_history := [sample_at 70 (1 / 2)], last_check_time := Some 70\<rparr>"

text \<open>A frame without detections, the default configuration after one such frame at instant 0,
  and a frame whose only detection has a square box.\<close>

definition empty_frame :: "string \<Rightarrow> py_error + sam_output" where
  "empty_frame = frame_with [] []"

definition idle_state :: sleeping_detector where
  "idle_state = (init_detector (3 / 10) 10 2)\<lparr>last_check_time := Some 0\<rparr>"

definition standing_frame :: "string \<Rightarrow> py_error + sam_output" where
  "standing_frame = frame_with [1 / 2] [square_box]"

text \<open>The trace of a delivery in which every attempt from \<open>j\<close> to the last one fails.\<close>

definition failed_trace :: "webhook_sender \<Rightarrow> int \<Rightarrow> event list" where
  "failed_trace w j =
     concat (map (\<lambda>a. Post a # (if a < retry_attempts w then [Sleep (retry_delay w)] else []))
               [j..retry_attempts w])"

text \<open>The trace of a delivery that fails on the attempts from \<open>j\<close> to \<open>k - 1\<close> and succeeds
  on attempt \<open>k\<close>.\<close>

definition delivered_trace :: "webhook_sender \<Rightarrow> int \<Rightarrow> int \<Rightarrow> event list" where
  "delivered_trace w j k =
     concat (map (\<lambda>a. [Post a, Sleep (retry_delay w)]) [j..k - 1]) @ [Post k]"

text \<open>The sender with the defaults of \<^verbatim>\<open>__init__\<close> (three attempts, 2 s delay), the endpoint of
  scenario C (500, 500, 200) and an endpoint on which every attempt fails.\<close>

definition default_sender :: webhook_sender where
  "default_sender = \<lparr>webhook_url = ''https://example.invalid/hook'', timeout = 10,
                     retry_attempts = 3, retry_delay = 2\<rparr>"

definition scenario_C_endpoint :: "int \<Rightarrow> response" where
  "scenario_C_endpoint attempt = (if attempt = 3 then Status 200 else Status 500)"

definition dead_endpoint :: "int \<Rightarrow> response" where
  "dead_endpoint attempt = (if attempt = 2 then Timeout else Status 500)"

text \<open>Detection \<open>i\<close> of the output for prompt \<open>p\<close>, as the processor returned it: the score,
  the box and the mask of index \<open>i\<close>.\<close>

definition detection_at :: "string \<Rightarrow> sam_output \<Rightarrow> instant \<Rightarrow> nat \<Rightarrow> candidate" where
  "detection_at p out ts i =
     \<lparr>prompt = p, score = scores out ! i,
      box = (if i < length (boxes out) then Some (boxes out ! i) else None),
      mask_shape = (if i < length (masks out) then Some (masks out ! i) else None),
      timestamp = ts\<rparr>"

text \<open>All detections of a frame in the order of the two loops: prompt by prompt, and for
  each prompt by increasing index.\<close>

definition frame_candidates ::
  "(string \<Rightarrow> py_error + sam_output) \<Rightarrow> instant \<Rightarrow> string list \<Rightarrow> candidate list" where
  "frame_candidates processor ts ps =
     concat (map (\<lambda>p. case processor p of
                         Inl e \<Rightarrow> []
                       | Inr out \<Rightarrow> map (detection_at p out ts) [0..<length (scores out)]) ps)"

text \<open>One step of the search: a detection replaces the best one so far when its score is
  above the threshold and strictly above the best score.\<close>

definition keep_better :: "rat \<Rightarrow> rat \<times> candidate option \<Rightarrow> candidate \<Rightarrow> rat \<times> candidate option" where
  "keep_better thr acc c = (if thr < score c \<and> fst acc < score c then (score c, Some c) else acc)"

text \<open>The default configuration after the call at instant 6 that follows the three samples
  of \<open>three_sample_state\<close>, and the alert of that call.\<close>

definition fourth_state :: sleeping_detector where
  "fourth_state = (init_detector (3 / 10) 10 2)
     \<lparr>detections_history :=
        [sample_at 0 (9 / 10), sample_at 2 (1 / 2), sample_at 4 (1 / 2), sample_at 6 (1 / 2)],
      last_check_time := Some 6, alert_cooldown_until := Some 36\<rparr>"

definition fourth_alert :: alert where
  "fourth_alert = create_alert
     ((init_detector (3 / 10) 10 2)\<lparr>detections_history :=
        [sample_at 0 (9 / 10), sample_at 2 (1 / 2), sample_at 4 (1 / 2), sample_at 6 (1 / 2)]\<rparr>)
     (sample_at 6 (1 / 2)) 6"

section \<open>Properties\<close>

subsection \<open>Float arithmetic\<close>

lemma bitlen_values: "bitlen 1 = 1" "bitlen 2 = 2" "bitlen 5 = 3" "bitlen 10 = 4"
proof -
  show "bitlen 1 = 1" using bitlen_twopow_add_eq [of 0 0] by simp
  show "bitlen 2 = 2" using bitlen_twopow_add_eq [of 0 1] by simp
  show "bitlen 5 = 3" using bitlen_twopow_add_eq [of 1 2] by simp
  show "bitlen 10 = 4" using bitlen_twopow_add_eq [of 2 3] by simp
qed

lemma floor_numeral_quotient: "\<lfloor>numeral a / numeral b :: rat\<rfloor> = numeral a div numeral b"
  using floor_divide_of_int_eq [of "numeral a" "numeral b", where ?'a = rat] by simp

lemma floor_log2_values:
  "floor_log2 1 = 0" "floor_log2 2 = 1" "floor_log2 5 = 2" "floor_log2 10 = 3" "floor_log2 (6 / 5) = 0"
  by (simp_all add: floor_log2_def bitlen_values floor_numeral_quotient)

lemma binary64_values:
  "binary64 1 = Finite 1" "binary64 2 = Finite 2" "binary64 5 = Finite 5" "binary64 10 = Finite 10"
  by (simp_all add: binary64_def floor_log2_values round_half_even_def Let_def power_int_minus)

lemma round_half_even_le:
  assumes "x \<le> of_int n"
  shows "round_half_even x \<le> n"
proof -
  from assms have fl: "\<lfloor>x\<rfloor> \<le> n" by (simp add: floor_le_iff)
  show ?thesis
  proof (cases "x - of_int \<lfloor>x\<rfloor> = 0")
    case True
    then show ?thesis using fl by (simp add: round_half_even_def Let_def)
  next
    case False
    moreover have "of_int \<lfloor>x\<rfloor> \<le> x" by simp
    ultimately have "of_int \<lfloor>x\<rfloor> < x" by linarith
    with assms have "(of_int \<lfloor>x\<rfloor> :: rat) < of_int n" by linarith
    then have "\<lfloor>x\<rfloor> + 1 \<le> n" by simp
    with fl show ?thesis by (simp add: round_half_even_def Let_def)
  qed
qed

lemma floor_log2_le_0: "a \<le> 1 \<Longrightarrow> floor_log2 a \<le> 0"
  by (cases "a = 1") (simp_all add: floor_log2_def bitlen_nonneg bitlen_values)

lemma binary64_le_1:
  assumes "0 \<le> x" and "x \<le> 1"
  shows "\<exists>v. binary64 x = Finite v \<and> v \<le> 1"
proof (cases "x = 0")
  case True
  then show ?thesis by (simp add: binary64_def)
next
  case False
  with assms have pos: "0 < x" by simp
  define e where "e = max (floor_log2 \<bar>x\<bar> - 52) (- 1074)"
  define m where "m = round_half_even (\<bar>x\<bar> / 2 powi e)"
  have e0: "e \<le> 0" using floor_log2_le_0 [of x] assms pos by (simp add: e_def)
  have p: "(2 :: rat) powi e = 1 / 2 ^ nat (- e)"
    using e0 by (simp add: power_int_def field_simps)
  have "\<bar>x\<bar> / 2 powi e \<le> of_int (2 ^ nat (- e))"
    using assms pos by (simp add: p mult_left_le_one_le)
  then have "m \<le> 2 ^ nat (- e)" unfolding m_def by (rule round_half_even_le)
  then have "(of_int m :: rat) \<le> 2 ^ nat (- e)"
    by (metis of_int_le_iff of_int_numeral of_int_power)
  then have v1: "of_int m * 2 powi e \<le> (1 :: rat)"
    by (simp add: p field_simps)
  have "(1 :: rat) < 2 powi 1024" by (simp add: power_int_def)
  with v1 have "\<not> (2 :: rat) powi 1024 \<le> of_int m * 2 powi e" by simp
  then have "binary64 x = Finite (of_int m * 2 powi e)"
    using pos False unfolding binary64_def Let_def e_def [symmetric] m_def [symmetric] by simp
  with v1 show ?thesis by blast
qed

lemma float_1_2_value: "float_1_2 = Finite (5404319552844595 / 4503599627370496)"
  by (simp add: float_1_2_def binary64_def floor_log2_values round_half_even_def Let_def
      power_int_minus floor_numeral_quotient)

lemma analyze_total: "\<exists>ori. analyze_orientation [x1, y1, x2, y2] = Inr ori"
proof -
  have div: "\<exists>q. float_truediv w h = Inr q" if "float_gt h (Finite 0)" for w h
    using that by (cases h; cases w) auto
  show ?thesis
  proof (cases "float_gt (float_abs (float_sub y2 y1)) (Finite 0)")
    case True
    from div [OF this, of "float_abs (float_sub x2 x1)"] obtain q
      where "float_truediv (float_abs (float_sub x2 x1)) (float_abs (float_sub y2 y1)) = Inr q"
      by blast
    with True show ?thesis by (simp add: analyze_orientation_def Let_def)
  next
    case False
    then show ?thesis by (simp add: analyze_orientation_def Let_def)
  qed
qed

lemma analyze_flat:
  "float_abs (float_sub y2 y1) = Finite 0 \<Longrightarrow> analyze_orientation [x1, y1, x2, y2] = Inr Vertical"
  by (simp add: analyze_orientation_def Let_def float_1_2_value)

lemma analyze_same_y: "analyze_orientation [x1, Finite y, x2, Finite y] = Inr Vertical"
  by (rule analyze_flat) (simp add: binary64_def)

lemma analyze_horizontal_iff:
  "analyze_orientation [x1, y1, x2, y2] = Inr Horizontal \<longleftrightarrow>
     float_gt (float_abs (float_sub y2 y1)) (Finite 0) \<and>
     (\<exists>q. float_truediv (float_abs (float_sub x2 x1)) (float_abs (float_sub y2 y1)) = Inr q \<and>
          float_gt q float_1_2)"
  by (auto simp: analyze_orientation_def Let_def float_1_2_value split: sum.splits)

lemma analyze_not_wider:
  assumes "float_abs (float_sub x2 x1) = Finite w"
    and "float_abs (float_sub y2 y1) = Finite h"
    and "w \<le> h"
  shows "analyze_orientation [x1, y1, x2, y2] = Inr Vertical"
proof (cases "0 < h")
  case False
  then show ?thesis using assms(2) by (simp add: analyze_orientation_def Let_def float_1_2_value)
next
  case True
  have "0 \<le> w" using assms(1) by (cases "float_sub x2 x1") auto
  with True assms(3) have "0 \<le> w / h" "w / h \<le> 1" by simp_all
  from binary64_le_1 [OF this] obtain v where v: "binary64 (w / h) = Finite v" "v \<le> 1" by blast
  show ?thesis using True v assms(1,2)
    by (simp add: analyze_orientation_def Let_def float_1_2_value)
qed

lemma lying_box_horizontal: "analyze_orientation lying_box = Inr Horizontal"
  by (simp add: lying_box_def analyze_orientation_def binary64_values float_1_2_value)

lemma square_box_vertical: "analyze_orientation square_box = Inr Vertical"
  by (simp add: square_box_def analyze_orientation_def binary64_values float_1_2_value)

lemma boxes_nonempty: "lying_box \<noteq> []" "square_box \<noteq> []"
  by (simp_all add: lying_box_def square_box_def)

subsection \<open>The detector\<close>

lemma check_persistence_iff:
  "check_persistence d now = Inr True \<longleftrightarrow>
     (2 \<le> length (detections_history d) \<and> check_interval d \<noteq> 0 \<and>
      spec_required (persistence_seconds d) (check_interval d)
        \<le> int (length (recent_detections d now)))"
  by (auto simp: check_persistence_def py_truediv_def spec_required_def ceiling_le_iff)

lemma add_to_history_fields [simp]:
  "alert_cooldown_until (add_to_history d det) = alert_cooldown_until d"
  "last_check_time (add_to_history d det) = last_check_time d"
  "confidence_threshold (add_to_history d det) = confidence_threshold d"
  "persistence_seconds (add_to_history d det) = persistence_seconds d"
  "check_interval (add_to_history d det) = check_interval d"
  by (simp_all add: add_to_history_def Let_def)

lemma handle_best_fire:
  "handle_best d bd ts = (Some a, d') \<Longrightarrow>
     \<exists>c b. bd = Some c \<and> box c = Some b \<and> b \<noteq> [] \<and> analyze_orientation b = Inr Horizontal \<and>
       check_persistence (add_to_history d (with_orientation c Horizontal)) ts = Inr True \<and>
       a = create_alert (add_to_history d (with_orientation c Horizontal))
             (with_orientation c Horizontal) ts \<and>
       d' = (add_to_history d (with_orientation c Horizontal))
              \<lparr>alert_cooldown_until := Some (ts + cooldown_seconds)\<rparr>"
  by (auto simp: handle_best_def Let_def split: option.splits if_splits sum.splits)

lemma detect_fire:
  "detect_sleeping_person d processor ts = (Some a, d') \<Longrightarrow>
     \<exists>bs c b. should_check_frame d ts \<and> \<not> in_cooldown (d\<lparr>last_check_time := Some ts\<rparr>) ts \<and>
       scan_prompts (confidence_threshold d) processor ts sleep_prompts (0, None) = Inr (bs, Some c) \<and>
       box c = Some b \<and> b \<noteq> [] \<and> analyze_orientation b = Inr Horizontal \<and>
       check_persistence
         (add_to_history (d\<lparr>last_check_time := Some ts\<rparr>) (with_orientation c Horizontal)) ts
         = Inr True \<and>
       a = create_alert
             (add_to_history (d\<lparr>last_check_time := Some ts\<rparr>) (with_orientation c Horizontal))
             (with_orientation c Horizontal) ts \<and>
       d' = (add_to_history (d\<lparr>last_check_time := Some ts\<rparr>) (with_orientation c Horizontal))
              \<lparr>alert_cooldown_until := Some (ts + cooldown_seconds)\<rparr>"
  by (auto simp: detect_sleeping_person_def Let_def split: if_splits sum.splits prod.splits
      dest!: handle_best_fire)

lemma handle_best_cooldown:
  "alert_cooldown_until (snd (handle_best d bd ts)) = alert_cooldown_until d \<or>
   alert_cooldown_until (snd (handle_best d bd ts)) = Some (ts + cooldown_seconds)"
  by (auto simp: handle_best_def Let_def split: option.splits if_splits sum.splits)

lemma cooldown_blocks:
  "alert_cooldown_until d = Some u \<Longrightarrow> ts < u \<Longrightarrow> fst (detect_sleeping_person d processor ts) = None"
  by (simp add: detect_sleeping_person_def Let_def in_cooldown_def)

lemma cooldown_mono:
  assumes "alert_cooldown_until d = Some u"
  shows "\<exists>u'. alert_cooldown_until (snd (detect_sleeping_person d processor ts)) = Some u' \<and> u \<le> u'"
proof (cases "should_check_frame d ts \<and> \<not> ts < u")
  case False
  then show ?thesis using assms
    by (auto simp: detect_sleeping_person_def Let_def in_cooldown_def)
next
  case True
  let ?d1 = "d\<lparr>last_check_time := Some ts\<rparr>"
  show ?thesis
  proof (cases "scan_prompts (confidence_threshold d) processor ts sleep_prompts (0, None)")
    case (Inl e)
    then show ?thesis using assms True
      by (simp add: detect_sleeping_person_def Let_def in_cooldown_def)
  next
    case (Inr r)
    obtain bs bd where r: "r = (bs, bd)" by (cases r)
    have eq: "snd (detect_sleeping_person d processor ts) = snd (handle_best ?d1 bd ts)"
      using assms True Inr r by (simp add: detect_sleeping_person_def Let_def in_cooldown_def)
    from handle_best_cooldown [of ?d1 bd ts] show ?thesis
    proof
      assume "alert_cooldown_until (snd (handle_best ?d1 bd ts)) = alert_cooldown_until ?d1"
      with eq assms show ?thesis by simp
    next
      assume "alert_cooldown_until (snd (handle_best ?d1 bd ts)) = Some (ts + cooldown_seconds)"
      with eq True show ?thesis by (simp add: cooldown_seconds_def)
    qed
  qed
qed

lemma run_blocked:
  "alert_cooldown_until d = Some u \<Longrightarrow> c \<le> u \<Longrightarrow> i < length calls \<Longrightarrow> snd (calls ! i) < c \<Longrightarrow>
     fst (run d calls) ! i = None"
proof (induction calls arbitrary: d u i)
  case Nil
  then show ?case by simp
next
  case (Cons call calls)
  obtain processor ts where call: "call = (processor, ts)" by (cases call)
  obtain r d1 where step: "detect_sleeping_person d processor ts = (r, d1)"
    by (cases "detect_sleeping_person d processor ts")
  obtain rs d2 where rest: "run d1 calls = (rs, d2)" by (cases "run d1 calls")
  show ?case
  proof (cases i)
    case 0
    with Cons.prems call have "ts < u" by simp
    from cooldown_blocks [OF Cons.prems(1) this, of processor] step have "r = None" by simp
    with 0 call step rest show ?thesis by simp
  next
    case (Suc j)
    from cooldown_mono [OF Cons.prems(1), of processor ts] step
    obtain u' where u': "alert_cooldown_until d1 = Some u'" "u \<le> u'" by auto
    from Cons.prems Suc have "j < length calls" "snd (calls ! j) < c" by simp_all
    from Cons.IH [OF u'(1) _ this] u'(2) Cons.prems(2) have "fst (run d1 calls) ! j = None" by simp
    with Suc call step rest show ?thesis by simp
  qed
qed

text \<open>
  Claim C1 (cooldown idempotence). When a call at instant \<open>T\<close> returns an alert, the state it
  leaves has \<open>alert_cooldown_until = T + cooldown_seconds\<close> (30 seconds in the source), and in
  every later run of calls on that state, whatever the frames and however many there are,
  each call whose instant is strictly before \<open>T + cooldown_seconds\<close> returns no alert.
\<close>

theorem cooldown_idempotence:
  assumes "detect_sleeping_person d processor T = (Some a, d')"
  shows "alert_cooldown_until d' = Some (T + cooldown_seconds) \<and>
         (\<forall>calls i. i < length calls \<and> snd (calls ! i) < T + cooldown_seconds
            \<longrightarrow> fst (run d' calls) ! i = None)"
proof -
  from detect_fire [OF assms] have cd: "alert_cooldown_until d' = Some (T + cooldown_seconds)"
    by auto
  show ?thesis using cd run_blocked [OF cd order_refl] by blast
qed

lemmas detector_defs =
  detect_sleeping_person_def handle_best_def check_persistence_def recent_detections_def
  add_to_history_def lying_box_horizontal square_box_vertical boxes_nonempty py_truediv_def
  should_check_frame_def
  in_cooldown_def with_orientation_def create_alert_def cooldown_seconds_def sleep_prompts_def
  init_detector_def frame_with_def sample_at_def Let_def

lemma spec_required_10_2: "spec_required 10 2 = 4"
  unfolding spec_required_def by (simp add: ceiling_eq_iff)

lemma one_sample_state_reached:
  "detect_sleeping_person (init_detector (3 / 10) 2 2) (frame_with [9 / 10] [lying_box]) 0
     = (None, one_sample_state)"
  by (simp add: one_sample_state_def detector_defs)

lemma one_sample_state_fires:
  "detect_sleeping_person one_sample_state lying_frame 10 = (Some fired_alert, fired_state)"
  by (simp add: one_sample_state_def lying_frame_def fired_alert_def fired_state_def detector_defs)

theorem cooldown_idempotence_witness:
  "detect_sleeping_person one_sample_state lying_frame 10 = (Some fired_alert, fired_state) \<and>
   alert_cooldown_until fired_state = Some (10 + cooldown_seconds) \<and>
   fst (run fired_state [(lying_frame, 12), (lying_frame, 39)]) ! 1 = None"
proof -
  have fire: "detect_sleeping_person one_sample_state lying_frame 10 = (Some fired_alert, fired_state)"
    by (rule one_sample_state_fires)
  from cooldown_idempotence [OF fire]
  have cd: "alert_cooldown_until fired_state = Some (10 + cooldown_seconds)"
    and blocked: "\<And>calls i. i < length calls \<Longrightarrow> snd (calls ! i) < 10 + cooldown_seconds
            \<Longrightarrow> fst (run fired_state calls) ! i = None"
    by blast+
  have "fst (run fired_state [(lying_frame, 12), (lying_frame, 39)]) ! 1 = None"
    by (rule blocked) (simp_all add: cooldown_seconds_def)
  with fire cd show ?thesis by blast
qed

lemma scan_scores_timestamp:
  "(\<And>c. snd acc = Some c \<Longrightarrow> timestamp c = ts) \<Longrightarrow>
   snd (scan_scores thr p out ts i scs acc) = Some c' \<Longrightarrow> timestamp c' = ts"
proof (induction scs arbitrary: i acc)
  case Nil
  then show ?case by simp
next
  case (Cons sc scs)
  obtain bs bd where acc: "acc = (bs, bd)" by (cases acc)
  let ?acc' = "if sc > thr \<and> sc > bs
        then (sc, Some \<lparr>prompt = p, score = sc,
                box = (if length (boxes out) > i then Some (boxes out ! i) else None),
                mask_shape = (if length (masks out) > i then Some (masks out ! i) else None),
                timestamp = ts\<rparr>)
        else (bs, bd)"
  have step: "scan_scores thr p out ts i (sc # scs) acc = scan_scores thr p out ts (Suc i) scs ?acc'"
    by (simp add: acc)
  have ok: "\<And>c. snd ?acc' = Some c \<Longrightarrow> timestamp c = ts"
    using Cons.prems(1) by (auto simp: acc split: if_splits)
  from Cons.prems(2) have "snd (scan_scores thr p out ts (Suc i) scs ?acc') = Some c'"
    unfolding step .
  from Cons.IH [OF ok this] show ?case .
qed

lemma scan_prompts_timestamp:
  "(\<And>c. snd acc = Some c \<Longrightarrow> timestamp c = ts) \<Longrightarrow>
   scan_prompts thr processor ts ps acc = Inr (bs', Some c') \<Longrightarrow> timestamp c' = ts"
proof (induction ps arbitrary: acc)
  case Nil
  then show ?case by simp
next
  case (Cons p ps)
  from Cons.prems(2) obtain out where out: "processor p = Inr out"
    and rest: "scan_prompts thr processor ts ps (scan_scores thr p out ts 0 (scores out) acc)
               = Inr (bs', Some c')"
    by (auto split: sum.splits)
  show ?case
    by (rule Cons.IH [OF _ rest]) (rule scan_scores_timestamp [OF Cons.prems(1)])
qed

lemma scan_scores_best:
  "best_ok thr acc \<Longrightarrow>
   best_ok thr (scan_scores thr p out ts i scs acc) \<and>
   fst acc \<le> fst (scan_scores thr p out ts i scs acc) \<and>
   (\<forall>sc \<in> set scs. sc \<le> thr \<or> sc \<le> fst (scan_scores thr p out ts i scs acc))"
proof (induction scs arbitrary: i acc)
  case Nil
  then show ?case by simp
next
  case (Cons sc scs)
  obtain bs bd where acc: "acc = (bs, bd)" by (cases acc)
  let ?acc' = "if sc > thr \<and> sc > bs
        then (sc, Some \<lparr>prompt = p, score = sc,
                box = (if length (boxes out) > i then Some (boxes out ! i) else None),
                mask_shape = (if length (masks out) > i then Some (masks out ! i) else None),
                timestamp = ts\<rparr>)
        else (bs, bd)"
  have ok': "best_ok thr ?acc'" using Cons.prems by (simp add: acc best_ok_def)
  have step: "scan_scores thr p out ts i (sc # scs) acc = scan_scores thr p out ts (Suc i) scs ?acc'"
    by (simp add: acc)
  from Cons.IH [OF ok', of "Suc i"]
  have ih: "best_ok thr (scan_scores thr p out ts (Suc i) scs ?acc')"
    "fst ?acc' \<le> fst (scan_scores thr p out ts (Suc i) scs ?acc')"
    "\<forall>x \<in> set scs. x \<le> thr \<or> x \<le> fst (scan_scores thr p out ts (Suc i) scs ?acc')"
    by blast+
  have "bs \<le> fst ?acc'" by simp
  moreover have "sc \<le> thr \<or> sc \<le> fst ?acc'" by auto
  ultimately have a: "fst acc \<le> fst (scan_scores thr p out ts (Suc i) scs ?acc')"
    and b: "sc \<le> thr \<or> sc \<le> fst (scan_scores thr p out ts (Suc i) scs ?acc')"
    using ih(2) unfolding acc fst_conv by (blast intro: order_trans)+
  show ?case unfolding step using ih(1) ih(3) a b by simp
qed

lemma scan_prompts_best:
  "best_ok thr acc \<Longrightarrow> scan_prompts thr processor ts ps acc = Inr r \<Longrightarrow>
   best_ok thr r \<and> fst acc \<le> fst r \<and>
   (\<forall>p \<in> set ps. \<forall>out. processor p = Inr out \<longrightarrow> (\<forall>sc \<in> set (scores out). sc \<le> thr \<or> sc \<le> fst r))"
proof (induction ps arbitrary: acc)
  case Nil
  then show ?case by simp
next
  case (Cons p ps)
  from Cons.prems(2) obtain out where out: "processor p = Inr out"
    and rest: "scan_prompts thr processor ts ps (scan_scores thr p out ts 0 (scores out) acc) = Inr r"
    by (auto split: sum.splits)
  let ?acc' = "scan_scores thr p out ts 0 (scores out) acc"
  from scan_scores_best [OF Cons.prems(1), of p out ts 0 "scores out"]
  have s: "best_ok thr ?acc'" "fst acc \<le> fst ?acc'"
    "\<forall>sc \<in> set (scores out). sc \<le> thr \<or> sc \<le> fst ?acc'" by blast+
  from Cons.IH [OF s(1) rest]
  have ih: "best_ok thr r" "fst ?acc' \<le> fst r"
    "\<forall>q \<in> set ps. \<forall>o'. processor q = Inr o' \<longrightarrow> (\<forall>sc \<in> set (scores o'). sc \<le> thr \<or> sc \<le> fst r)"
    by blast+
  have "\<forall>sc \<in> set (scores out). sc \<le> thr \<or> sc \<le> fst r"
    using s(3) ih(2) by (meson order_trans)
  with out ih s(2) show ?case by auto
qed

lemma add_to_history_last:
  "detections_history (add_to_history d det) \<noteq> [] \<and>
   last (detections_history (add_to_history d det)) = det"
  by (simp add: add_to_history_def Let_def)

lemma add_to_history_pruned:
  "x \<in> set (detections_history (add_to_history d det)) \<Longrightarrow> timestamp det - 60 < timestamp x"
  by (auto simp: add_to_history_def Let_def)

text \<open>
  Claim C4 (minimum-sample guard), as amended. An alert requires that the whole history
  window, after the current sample was appended and the window pruned, holds at least two
  samples; \<open>_check_persistence\<close> answers False on a window of fewer than two samples whatever
  the threshold is. The guard counts every retained sample, not the qualifying subset.
\<close>

theorem minimum_sample_guard_window:
  "(\<forall>d now. length (detections_history d) < 2 \<longrightarrow> check_persistence d now = Inr False)
   \<and> (\<forall>d processor ts a d'. detect_sleeping_person d processor ts = (Some a, d') \<longrightarrow>
        2 \<le> length (detections_history d'))"
proof (intro conjI allI impI)
  fix d :: sleeping_detector and now :: instant
  assume "length (detections_history d) < 2"
  then show "check_persistence d now = Inr False" by (simp add: check_persistence_def)
next
  fix d processor ts a d'
  assume "detect_sleeping_person d processor ts = (Some a, d')"
  from detect_fire [OF this] obtain c where
    cp: "check_persistence
         (add_to_history (d\<lparr>last_check_time := Some ts\<rparr>) (with_orientation c Horizontal)) ts
         = Inr True"
    and d': "d' = (add_to_history (d\<lparr>last_check_time := Some ts\<rparr>) (with_orientation c Horizontal))
              \<lparr>alert_cooldown_until := Some (ts + cooldown_seconds)\<rparr>"
    by blast
  from cp show "2 \<le> length (detections_history d')"
    by (simp add: check_persistence_iff d')
qed

theorem minimum_sample_guard_window_witness:
  "length (detections_history (init_detector (3 / 10) 2 2)) < 2 \<and>
   check_persistence (init_detector (3 / 10) 2 2) 10 = Inr False \<and>
   detect_sleeping_person one_sample_state lying_frame 10 = (Some fired_alert, fired_state) \<and>
   2 \<le> length (detections_history fired_state)"
proof -
  have a: "length (detections_history (init_detector (3 / 10) 2 2)) < 2"
    by (simp add: init_detector_def)
  have b: "check_persistence (init_detector (3 / 10) 2 2) 10 = Inr False"
    using minimum_sample_guard_window a by blast
  have c: "detect_sleeping_person one_sample_state lying_frame 10 = (Some fired_alert, fired_state)"
    by (rule one_sample_state_fires)
  have e: "2 \<le> length (detections_history fired_state)"
    using minimum_sample_guard_window c by blast
  from a b c e show ?thesis by blast
qed

theorem minimum_sample_guard_counterexample:
  "detect_sleeping_person (init_detector (3 / 10) 2 2) (frame_with [9 / 10] [lying_box]) 0
     = (None, one_sample_state) \<and>
   detect_sleeping_person one_sample_state lying_frame 10 = (Some fired_alert, fired_state) \<and>
   recent_detections fired_state 10 = [sample_at 10 (1 / 2)] \<and>
   length (recent_detections fired_state 10) < 2 \<and>
   spec_required (persistence_seconds one_sample_state) (check_interval one_sample_state) = 1"
proof -
  have "recent_detections fired_state 10 = [sample_at 10 (1 / 2)]"
    by (simp add: fired_state_def detector_defs)
  moreover have
    "spec_required (persistence_seconds one_sample_state) (check_interval one_sample_state) = 1"
    by (simp add: one_sample_state_def init_detector_def spec_required_def ceiling_eq_iff)
  ultimately show ?thesis
    using one_sample_state_reached one_sample_state_fires by simp
qed

theorem best_sample_selection_counterexample:
  "map_option confidence_score
     (fst (detect_sleeping_person three_sample_state lying_frame 6)) = Some (1 / 2) \<and>
   recent_detections (snd (detect_sleeping_person three_sample_state lying_frame 6)) 6
     = [sample_at 0 (9 / 10), sample_at 2 (1 / 2), sample_at 4 (1 / 2), sample_at 6 (1 / 2)] \<and>
   score (sample_at 0 (9 / 10)) = 9 / 10 \<and> (1 / 2 :: rat) < 9 / 10"
  by (simp add: three_sample_state_def lying_frame_def detector_defs)

lemma three_sample_state_reached:
  "snd (run (init_detector (3 / 10) 10 2)
         [(frame_with [9 / 10] [lying_box], 0), (lying_frame, 2), (lying_frame, 4)])
   = three_sample_state"
  by (simp add: three_sample_state_def lying_frame_def detector_defs)

lemma handle_best_history:
  "handle_best d bd ts = (r, d') \<Longrightarrow>
     detections_history d' = detections_history d \<or>
     (\<exists>c. bd = Some c \<and>
        detections_history d' = detections_history (add_to_history d (with_orientation c Horizontal)))"
  by (auto simp: handle_best_def Let_def split: option.splits if_splits sum.splits)

lemma detect_history:
  assumes "detect_sleeping_person d processor ts = (r, d')"
  shows "detections_history d' = detections_history d \<or>
     (\<exists>det. timestamp det = ts \<and>
        detections_history d' = filter (\<lambda>x. ts - 60 < timestamp x) (detections_history d @ [det]))"
proof (cases "should_check_frame d ts \<and> \<not> in_cooldown (d\<lparr>last_check_time := Some ts\<rparr>) ts")
  case False
  with assms show ?thesis
    by (auto simp: detect_sleeping_person_def Let_def split: if_splits)
next
  case True
  let ?d1 = "d\<lparr>last_check_time := Some ts\<rparr>"
  show ?thesis
  proof (cases "scan_prompts (confidence_threshold d) processor ts sleep_prompts (0, None)")
    case (Inl e)
    with assms True show ?thesis by (auto simp: detect_sleeping_person_def Let_def)
  next
    case (Inr res)
    obtain bs bd where res: "res = (bs, bd)" by (cases res)
    from assms True Inr res have hb: "handle_best ?d1 bd ts = (r, d')"
      by (simp add: detect_sleeping_person_def Let_def)
    from handle_best_history [OF hb] show ?thesis
    proof
      assume "detections_history d' = detections_history ?d1"
      then show ?thesis by simp
    next
      assume "\<exists>c. bd = Some c \<and>
        detections_history d' = detections_history (add_to_history ?d1 (with_orientation c Horizontal))"
      then obtain c where c: "bd = Some c"
        and h: "detections_history d' =
                detections_history (add_to_history ?d1 (with_orientation c Horizontal))"
        by blast
      have "timestamp c = ts"
        by (rule scan_prompts_timestamp [OF _ Inr [unfolded res c]]) simp
      then have "timestamp (with_orientation c Horizontal) = ts"
        by (simp add: with_orientation_def)
      moreover from this have "detections_history d' =
        filter (\<lambda>x. ts - 60 < timestamp x) (detections_history d @ [with_orientation c Horizontal])"
        by (simp add: h add_to_history_def Let_def)
      ultimately show ?thesis by blast
    qed
  qed
qed

text \<open>
  Claim C6 (monotonic pruning), as amended. Pruning is part of the insertion
  (\<open>_add_to_history\<close>): a call either leaves the history window as it was, or appends the
  current sample, which then is the last one and carries the instant of the call, and after
  such a call no retained sample has a timestamp at or before \<open>now - 60\<close>.
\<close>

theorem pruning_on_insertion:
  assumes "detect_sleeping_person d processor ts = (r, d')"
  shows "detections_history d' = detections_history d \<or>
         (detections_history d' \<noteq> [] \<and> timestamp (last (detections_history d')) = ts \<and>
          (\<forall>x \<in> set (detections_history d'). \<not> timestamp x \<le> ts - 60))"
proof -
  from detect_history [OF assms] show ?thesis
  proof
    assume "detections_history d' = detections_history d"
    then show ?thesis ..
  next
    assume "\<exists>det. timestamp det = ts \<and>
        detections_history d' = filter (\<lambda>x. ts - 60 < timestamp x) (detections_history d @ [det])"
    then obtain det where det: "timestamp det = ts"
      and h: "detections_history d' = filter (\<lambda>x. ts - 60 < timestamp x) (detections_history d @ [det])"
      by blast
    from det h have "detections_history d' \<noteq> []" "last (detections_history d') = det"
      by simp_all
    moreover from h have "\<forall>x \<in> set (detections_history d'). \<not> timestamp x \<le> ts - 60"
      by auto
    ultimately show ?thesis using det by simp
  qed
qed

theorem pruning_on_insertion_witness:
  "detect_sleeping_person one_sample_state lying_frame 70 = (None, pruned_state) \<and>
   detections_history pruned_state \<noteq> detections_history one_sample_state \<and>
   detections_history pruned_state \<noteq> [] \<and>
   timestamp (last (detections_history pruned_state)) = 70 \<and>
   list_all (\<lambda>x. \<not> timestamp x \<le> 70 - 60) (detections_history pruned_state) \<and>
   map timestamp (detections_history one_sample_state) = [0]"
proof -
  have step: "detect_sleeping_person one_sample_state lying_frame 70 = (None, pruned_state)"
    by (simp add: one_sample_state_def pruned_state_def lying_frame_def detector_defs)
  have changed: "detections_history pruned_state \<noteq> detections_history one_sample_state"
    by (simp add: one_sample_state_def pruned_state_def detector_defs)
  have old: "map timestamp (detections_history one_sample_state) = [0]"
    by (simp add: one_sample_state_def detector_defs)
  from pruning_on_insertion [OF step] changed step old show ?thesis
    unfolding list_all_iff by blast
qed

theorem monotonic_pruning_counterexample:
  "detect_sleeping_person one_sample_state (frame_with [1 / 10] [lying_box]) 100
     = (None, one_sample_state\<lparr>last_check_time := Some 100\<rparr>) \<and>
   detections_history (one_sample_state\<lparr>last_check_time := Some 100\<rparr>) = [sample_at 0 (9 / 10)] \<and>
   timestamp (sample_at 0 (9 / 10)) \<le> 100 - 60"
  by (simp add: one_sample_state_def detector_defs)

lemma handle_best_fields:
  "last_check_time (snd (handle_best d bd ts)) = last_check_time d"
  "check_interval (snd (handle_best d bd ts)) = check_interval d"
  "persistence_seconds (snd (handle_best d bd ts)) = persistence_seconds d"
  "confidence_threshold (snd (handle_best d bd ts)) = confidence_threshold d"
  by (auto simp: handle_best_def Let_def split: option.splits if_splits sum.splits)

lemma detect_fields:
  "check_interval (snd (detect_sleeping_person d processor ts)) = check_interval d"
  "last_check_time (snd (detect_sleeping_person d processor ts))
     = (if should_check_frame d ts then Some ts else last_check_time d)"
  by (auto simp: detect_sleeping_person_def Let_def handle_best_fields
      split: sum.splits prod.splits)

lemma idle_state_reached:
  "detect_sleeping_person (init_detector (3 / 10) 10 2) empty_frame 0 = (None, idle_state)"
  by (simp add: idle_state_def empty_frame_def detector_defs)

text \<open>
  Claim C7 (ingestion throttling), as amended. For two consecutive calls at \<open>now1\<close> and
  \<open>now2\<close> with \<open>now2 - now1 < check_interval\<close>, of which the first passed the interval gate
  (so that \<open>last_check_time = now1\<close> after it), the second call returns None and leaves the
  whole state, \<open>last_check_time\<close> and the history window included, as it was.
\<close>

theorem throttled_call_changes_nothing:
  assumes "should_check_frame d now1"
    and "detect_sleeping_person d processor1 now1 = (r1, d1)"
    and "now2 - now1 < of_int (check_interval d)"
  shows "detect_sleeping_person d1 processor2 now2 = (None, d1)"
proof -
  from detect_fields [of d processor1 now1] assms(1,2)
  have "check_interval d1 = check_interval d" "last_check_time d1 = Some now1"
    by simp_all
  with assms(3) have "\<not> should_check_frame d1 now2"
    by (simp add: should_check_frame_def)
  then show ?thesis by (simp add: detect_sleeping_person_def)
qed

theorem throttled_call_changes_nothing_witness:
  "should_check_frame (init_detector (3 / 10) 10 2) 0 \<and>
   detect_sleeping_person (init_detector (3 / 10) 10 2) empty_frame 0 = (None, idle_state) \<and>
   (1 :: rat) - 0 < of_int (check_interval (init_detector (3 / 10) 10 2)) \<and>
   detect_sleeping_person idle_state lying_frame 1 = (None, idle_state)"
proof -
  have a: "should_check_frame (init_detector (3 / 10) 10 2) 0"
    by (simp add: should_check_frame_def init_detector_def)
  have b: "detect_sleeping_person (init_detector (3 / 10) 10 2) empty_frame 0 = (None, idle_state)"
    by (rule idle_state_reached)
  have c: "(1 :: rat) - 0 < of_int (check_interval (init_detector (3 / 10) 10 2))"
    by (simp add: init_detector_def)
  from throttled_call_changes_nothing [OF a b c, of lying_frame] a b c show ?thesis by blast
qed

theorem throttling_counterexample:
  "detect_sleeping_person idle_state lying_frame 1 = (None, idle_state) \<and>
   (5 / 2 :: rat) - 1 < of_int (check_interval idle_state) \<and>
   detect_sleeping_person idle_state lying_frame (5 / 2)
     = (None, idle_state\<lparr>detections_history := [sample_at (5 / 2) (1 / 2)],
                         last_check_time := Some (5 / 2)\<rparr>)"
  by (simp add: idle_state_def lying_frame_def detector_defs)

text \<open>
  Claim C8 (ingestion during cooldown), as amended. Whenever the interval gate passes, the
  call sets \<open>last_check_time\<close> to the instant of the call, also during a cooldown. While
  \<open>now < alert_cooldown_until\<close> nothing else happens: the frame is not processed, the call
  returns None and the history window is unchanged. Outside a cooldown, a best detection
  with a horizontal box is appended to the history window.
\<close>

theorem cooldown_skips_ingestion:
  assumes "should_check_frame d ts"
    and "detect_sleeping_person d processor ts = (r, d')"
  shows "last_check_time d' = Some ts \<and>
         (in_cooldown d ts \<longrightarrow> r = None \<and> d' = d\<lparr>last_check_time := Some ts\<rparr>) \<and>
         (\<not> in_cooldown d ts \<longrightarrow>
            (\<forall>bs c b. scan_prompts (confidence_threshold d) processor ts sleep_prompts (0, None)
                         = Inr (bs, Some c) \<and>
                      box c = Some b \<and> analyze_orientation b = Inr Horizontal \<longrightarrow>
               detections_history d' \<noteq> [] \<and>
               last (detections_history d') = with_orientation c Horizontal))"
proof (intro conjI impI allI)
  from detect_fields(2) [of d processor ts] assms show "last_check_time d' = Some ts" by simp
next
  assume "in_cooldown d ts"
  then have "in_cooldown (d\<lparr>last_check_time := Some ts\<rparr>) ts" by (simp add: in_cooldown_def)
  with assms show "r = None" by (simp add: detect_sleeping_person_def Let_def)
next
  assume "in_cooldown d ts"
  then have "in_cooldown (d\<lparr>last_check_time := Some ts\<rparr>) ts" by (simp add: in_cooldown_def)
  with assms show "d' = d\<lparr>last_check_time := Some ts\<rparr>"
    by (simp add: detect_sleeping_person_def Let_def)
next
  fix bs c b
  let ?d1 = "d\<lparr>last_check_time := Some ts\<rparr>"
  let ?d2 = "add_to_history ?d1 (with_orientation c Horizontal)"
  assume nc: "\<not> in_cooldown d ts"
    and h: "scan_prompts (confidence_threshold d) processor ts sleep_prompts (0, None)
                = Inr (bs, Some c) \<and>
            box c = Some b \<and> analyze_orientation b = Inr Horizontal"
  from nc have nc1: "\<not> in_cooldown ?d1 ts" by (simp add: in_cooldown_def)
  from h have "b \<noteq> []" by (auto simp: analyze_orientation_def)
  with assms nc1 h have "detections_history d' = detections_history ?d2"
    by (auto simp: detect_sleeping_person_def handle_best_def Let_def split: sum.splits if_splits)
  with add_to_history_last [of ?d1 "with_orientation c Horizontal"]
  show "detections_history d' \<noteq> []" "last (detections_history d') = with_orientation c Horizontal"
    by simp_all
qed

lemma lying_frame_scan:
  "scan_prompts (3 / 10) lying_frame ts sleep_prompts (0, None)
     = Inr (1 / 2, Some \<lparr>prompt = ''person sleeping'', score = 1 / 2, box = Some lying_box,
                            mask_shape = None, timestamp = ts\<rparr>)"
  by (simp add: lying_frame_def frame_with_def sleep_prompts_def)

theorem cooldown_skips_ingestion_witness:
  "should_check_frame fired_state 12 \<and> in_cooldown fired_state 12 \<and>
   detect_sleeping_person fired_state lying_frame 12
     = (None, fired_state\<lparr>last_check_time := Some 12\<rparr>) \<and>
   should_check_frame one_sample_state 10 \<and> \<not> in_cooldown one_sample_state 10 \<and>
   detect_sleeping_person one_sample_state lying_frame 10 = (Some fired_alert, fired_state) \<and>
   last_check_time fired_state = Some 10 \<and>
   last (detections_history fired_state) = sample_at 10 (1 / 2)"
proof -
  obtain r d' where step: "detect_sleeping_person fired_state lying_frame 12 = (r, d')"
    by (cases "detect_sleeping_person fired_state lying_frame 12")
  have gate: "should_check_frame fired_state 12"
    by (simp add: fired_state_def should_check_frame_def init_detector_def)
  have cool: "in_cooldown fired_state 12"
    by (simp add: fired_state_def in_cooldown_def init_detector_def)
  from cooldown_skips_ingestion [OF gate step] cool
  have "r = None" "d' = fired_state\<lparr>last_check_time := Some 12\<rparr>" by blast+
  with step have a: "detect_sleeping_person fired_state lying_frame 12
     = (None, fired_state\<lparr>last_check_time := Some 12\<rparr>)" by simp
  have gate2: "should_check_frame one_sample_state 10"
    by (simp add: one_sample_state_def should_check_frame_def init_detector_def)
  have warm: "\<not> in_cooldown one_sample_state 10"
    by (simp add: one_sample_state_def in_cooldown_def init_detector_def)
  have thr: "confidence_threshold one_sample_state = 3 / 10"
    by (simp add: one_sample_state_def init_detector_def)
  have fire: "detect_sleeping_person one_sample_state lying_frame 10 = (Some fired_alert, fired_state)"
    by (rule one_sample_state_fires)
  note thm2 = cooldown_skips_ingestion [OF gate2 fire]
  from thm2 have b: "last_check_time fired_state = Some 10" by blast
  let ?c = "\<lparr>prompt = ''person sleeping'', score = 1 / 2, box = Some lying_box,
                            mask_shape = None, timestamp = 10\<rparr>"
  from thm2 warm have "\<forall>bs c b.
      scan_prompts (confidence_threshold one_sample_state) lying_frame 10 sleep_prompts (0, None)
        = Inr (bs, Some c) \<and> box c = Some b \<and> analyze_orientation b = Inr Horizontal \<longrightarrow>
      last (detections_history fired_state) = with_orientation c Horizontal"
    by blast
  from this [rule_format, of "1 / 2" ?c lying_box]
    lying_frame_scan [of 10, folded thr] lying_box_horizontal
  have "last (detections_history fired_state) = with_orientation ?c Horizontal"
    by simp
  then have c: "last (detections_history fired_state) = sample_at 10 (1 / 2)"
    by (simp add: with_orientation_def sample_at_def)
  from gate cool a gate2 warm fire b c show ?thesis by blast
qed

theorem ingestion_during_cooldown_counterexample:
  "should_check_frame fired_state 12 \<and>
   alert_cooldown_until fired_state = Some 40 \<and>
   scan_prompts (confidence_threshold fired_state) lying_frame 12 sleep_prompts (0, None)
     = Inr (1 / 2, Some \<lparr>prompt = ''person sleeping'', score = 1 / 2, box = Some lying_box,
                            mask_shape = None, timestamp = 12\<rparr>) \<and>
   confidence_threshold fired_state < 1 / 2 \<and>
   analyze_orientation lying_box = Inr Horizontal \<and>
   detect_sleeping_person fired_state lying_frame 12
     = (None, fired_state\<lparr>last_check_time := Some 12\<rparr>) \<and>
   detections_history (fired_state\<lparr>last_check_time := Some 12\<rparr>)
     = [sample_at 0 (9 / 10), sample_at 10 (1 / 2)]"
  by (simp add: fired_state_def lying_frame_def detector_defs)

text \<open>
  Claim C10 (degenerate boxes). On a box of four coordinates, whatever floats they are,
  \<open>_analyze_orientation\<close> returns an orientation and never divides by zero. A box whose
  computed height is 0, in particular one with \<open>y1 = y2\<close>, has aspect ratio 0 and is vertical.
  A box is horizontal exactly when its computed height is positive and the float quotient
  width / height exceeds the float 1.2; a box whose computed width does not exceed its
  computed height is vertical. A call whose best detection has a box that is not classified
  horizontal returns None and leaves the history window as it was.
\<close>

theorem degenerate_box_totality:
  "(\<forall>x1 y1 x2 y2. \<exists>ori. analyze_orientation [x1, y1, x2, y2] = Inr ori)
   \<and> (\<forall>x1 y1 x2 y2. float_abs (float_sub y2 y1) = Finite 0 \<longrightarrow>
        analyze_orientation [x1, y1, x2, y2] = Inr Vertical)
   \<and> (\<forall>x1 y x2. analyze_orientation [x1, Finite y, x2, Finite y] = Inr Vertical)
   \<and> (\<forall>x1 y1 x2 y2. analyze_orientation [x1, y1, x2, y2] = Inr Horizontal \<longleftrightarrow>
        float_gt (float_abs (float_sub y2 y1)) (Finite 0) \<and>
        (\<exists>q. float_truediv (float_abs (float_sub x2 x1)) (float_abs (float_sub y2 y1)) = Inr q \<and>
             float_gt q float_1_2))
   \<and> (\<forall>x1 y1 x2 y2 w h. float_abs (float_sub x2 x1) = Finite w \<and>
        float_abs (float_sub y2 y1) = Finite h \<and> w \<le> h \<longrightarrow>
        analyze_orientation [x1, y1, x2, y2] = Inr Vertical)
   \<and> (\<forall>d processor ts r d' bs c b.
        detect_sleeping_person d processor ts = (r, d') \<and>
        scan_prompts (confidence_threshold d) processor ts sleep_prompts (0, None)
          = Inr (bs, Some c) \<and>
        box c = Some b \<and> analyze_orientation b \<noteq> Inr Horizontal
        \<longrightarrow> r = None \<and> detections_history d' = detections_history d)"
proof (intro conjI allI impI)
  fix x1 y1 x2 y2 :: pyfloat
  show "\<exists>ori. analyze_orientation [x1, y1, x2, y2] = Inr ori" by (rule analyze_total)
next
  fix x1 y1 x2 y2 :: pyfloat
  assume "float_abs (float_sub y2 y1) = Finite 0"
  then show "analyze_orientation [x1, y1, x2, y2] = Inr Vertical" by (rule analyze_flat)
next
  fix x1 x2 :: pyfloat and y :: rat
  show "analyze_orientation [x1, Finite y, x2, Finite y] = Inr Vertical" by (rule analyze_same_y)
next
  fix x1 y1 x2 y2 :: pyfloat
  show "analyze_orientation [x1, y1, x2, y2] = Inr Horizontal \<longleftrightarrow>
        float_gt (float_abs (float_sub y2 y1)) (Finite 0) \<and>
        (\<exists>q. float_truediv (float_abs (float_sub x2 x1)) (float_abs (float_sub y2 y1)) = Inr q \<and>
             float_gt q float_1_2)"
    by (rule analyze_horizontal_iff)
next
  fix x1 y1 x2 y2 :: pyfloat and w h :: rat
  assume "float_abs (float_sub x2 x1) = Finite w \<and>
        float_abs (float_sub y2 y1) = Finite h \<and> w \<le> h"
  then show "analyze_orientation [x1, y1, x2, y2] = Inr Vertical"
    using analyze_not_wider by blast
next
  fix d processor ts r d' bs c b
  assume h: "detect_sleeping_person d processor ts = (r, d') \<and>
        scan_prompts (confidence_threshold d) processor ts sleep_prompts (0, None)
          = Inr (bs, Some c) \<and>
        box c = Some b \<and> analyze_orientation b \<noteq> Inr Horizontal"
  then have "(r, d') = (None, d) \<or> (r, d') = (None, d\<lparr>last_check_time := Some ts\<rparr>)"
    by (cases "analyze_orientation b"; cases "should_check_frame d ts";
        cases "in_cooldown (d\<lparr>last_check_time := Some ts\<rparr>) ts")
       (auto simp: detect_sleeping_person_def handle_best_def Let_def split: if_splits)
  then show "r = None" "detections_history d' = detections_history d" by auto
qed

theorem degenerate_box_totality_witness:
  "float_abs (float_sub (Finite 5) (Finite 5)) = Finite 0 \<and>
   analyze_orientation [Finite 0, Finite 5, Finite 10, Finite 5] = Inr Vertical \<and>
   float_abs (float_sub (Finite 10) (Finite 0)) = Finite 10 \<and> (10 :: rat) \<le> 10 \<and>
   analyze_orientation square_box = Inr Vertical \<and>
   analyze_orientation square_box \<noteq> Inr Horizontal \<and>
   detect_sleeping_person one_sample_state standing_frame 10
     = (None, one_sample_state\<lparr>last_check_time := Some 10\<rparr>) \<and>
   detections_history (one_sample_state\<lparr>last_check_time := Some 10\<rparr>)
     = detections_history one_sample_state"
proof -
  have flat: "float_abs (float_sub (Finite 5) (Finite 5)) = Finite 0"
    by (simp add: binary64_def)
  have a: "analyze_orientation [Finite 0, Finite 5, Finite 10, Finite 5] = Inr Vertical"
    by (rule degenerate_box_totality [THEN conjunct2, THEN conjunct1, rule_format, OF flat])
  have side: "float_abs (float_sub (Finite 10) (Finite 0)) = Finite 10"
    by (simp add: binary64_values)
  have sides: "float_abs (float_sub (Finite 10) (Finite 0)) = Finite 10 \<and>
      float_abs (float_sub (Finite 10) (Finite 0)) = Finite 10 \<and> (10 :: rat) \<le> 10"
    by (simp add: binary64_values)
  have "analyze_orientation [Finite 0, Finite 0, Finite 10, Finite 10] = Inr Vertical"
    by (rule degenerate_box_totality [THEN conjunct2, THEN conjunct2, THEN conjunct2,
          THEN conjunct2, THEN conjunct1, rule_format, OF sides])
  then have b: "analyze_orientation square_box = Inr Vertical" by (simp add: square_box_def)
  then have c: "analyze_orientation square_box \<noteq> Inr Horizontal" by simp
  have step: "detect_sleeping_person one_sample_state standing_frame 10
     = (None, one_sample_state\<lparr>last_check_time := Some 10\<rparr>)"
    by (simp add: one_sample_state_def standing_frame_def detector_defs)
  have scan: "scan_prompts (confidence_threshold one_sample_state) standing_frame 10 sleep_prompts (0, None)
     = Inr (1 / 2, Some \<lparr>prompt = ''person sleeping'', score = 1 / 2, box = Some square_box,
                            mask_shape = None, timestamp = 10\<rparr>)"
    by (simp add: one_sample_state_def standing_frame_def detector_defs)
  have e: "detections_history (one_sample_state\<lparr>last_check_time := Some 10\<rparr>)
     = detections_history one_sample_state"
    using degenerate_box_totality [THEN conjunct2, THEN conjunct2, THEN conjunct2,
          THEN conjunct2, THEN conjunct2, rule_format, of _ _ _ _ _ _ _ square_box] step scan c
    by simp
  from flat a side b c step e show ?thesis by simp
qed

lemma send_attempts_fail:
  assumes "0 \<le> retry_delay w"
    and "\<forall>a. j \<le> a \<and> a \<le> retry_attempts w \<longrightarrow> \<not> is_success (endpoint a)"
  shows "send_attempts w endpoint [j..retry_attempts w] trace = (Inr False, trace @ failed_trace w j)"
  using assms(2)
proof (induction "nat (retry_attempts w + 1 - j)" arbitrary: j trace)
  case 0
  then have "[j..retry_attempts w] = []" by simp
  then show ?case by (simp add: failed_trace_def)
next
  case (Suc n)
  then have le: "j \<le> retry_attempts w" by simp
  then have up: "[j..retry_attempts w] = j # [j + 1..retry_attempts w]" by (simp add: upto_rec1)
  from Suc.prems le have fail: "\<not> is_success (endpoint j)" by simp
  have n: "n = nat (retry_attempts w + 1 - (j + 1))" using Suc.hyps(2) by simp
  have rest: "\<forall>a. j + 1 \<le> a \<and> a \<le> retry_attempts w \<longrightarrow> \<not> is_success (endpoint a)"
    using Suc.prems by simp
  note ih = Suc.hyps(1) [OF n rest]
  have ft: "failed_trace w j =
      Post j # (if j < retry_attempts w then [Sleep (retry_delay w)] else []) @ failed_trace w (j + 1)"
    by (simp add: failed_trace_def up)
  have last: "\<not> j < retry_attempts w \<Longrightarrow> failed_trace w (j + 1) = []"
    by (simp add: failed_trace_def)
  show ?case
    unfolding up using fail assms(1) by (simp add: ih ft last Let_def)
qed

lemma send_attempts_deliver:
  assumes "0 \<le> retry_delay w"
    and "k \<le> retry_attempts w"
    and "is_success (endpoint k)"
  shows "j \<le> k \<Longrightarrow> \<forall>a. j \<le> a \<and> a < k \<longrightarrow> \<not> is_success (endpoint a) \<Longrightarrow>
     send_attempts w endpoint [j..retry_attempts w] trace = (Inr True, trace @ delivered_trace w j k)"
proof (induction "nat (k - j)" arbitrary: j trace)
  case 0
  then have jk: "j = k" by simp
  have up: "[k..retry_attempts w] = k # [k + 1..retry_attempts w]"
    using assms(2) by (simp add: upto_rec1)
  show ?case unfolding jk up using assms(3) by (simp add: delivered_trace_def Let_def)
next
  case (Suc n)
  then have lt: "j < k" by simp
  with assms(2) have up: "[j..retry_attempts w] = j # [j + 1..retry_attempts w]"
    by (simp add: upto_rec1)
  from Suc.prems lt have fail: "\<not> is_success (endpoint j)" by simp
  have n: "n = nat (k - (j + 1))" using Suc.hyps(2) by simp
  have le: "j + 1 \<le> k" using lt by simp
  have rest: "\<forall>a. j + 1 \<le> a \<and> a < k \<longrightarrow> \<not> is_success (endpoint a)"
    using Suc.prems by simp
  note ih = Suc.hyps(1) [OF n le rest]
  have "[j..k - 1] = j # [j + 1..k - 1]" using lt by (simp add: upto_rec1)
  then have dt: "delivered_trace w j k = Post j # Sleep (retry_delay w) # delivered_trace w (j + 1) k"
    by (simp add: delivered_trace_def)
  have "j < retry_attempts w" using lt assms(2) by simp
  then show ?case
    unfolding up using fail assms(1) by (simp add: ih dt Let_def)
qed

lemma attempts_made_append: "attempts_made (xs @ ys) = attempts_made xs + attempts_made ys"
  by (simp add: attempts_made_def)

lemma attempts_made_failed_trace: "attempts_made (failed_trace w j) = nat (retry_attempts w + 1 - j)"
proof (induction "nat (retry_attempts w + 1 - j)" arbitrary: j)
  case 0
  then have "[j..retry_attempts w] = []" by simp
  with 0 show ?case by (simp add: failed_trace_def attempts_made_def)
next
  case (Suc n)
  then have le: "j \<le> retry_attempts w" by simp
  then have up: "[j..retry_attempts w] = j # [j + 1..retry_attempts w]" by (simp add: upto_rec1)
  have n: "n = nat (retry_attempts w + 1 - (j + 1))" using Suc.hyps(2) by simp
  have ft: "failed_trace w j =
      (Post j # (if j < retry_attempts w then [Sleep (retry_delay w)] else [])) @ failed_trace w (j + 1)"
    by (simp add: failed_trace_def up)
  have "attempts_made (Post j # (if j < retry_attempts w then [Sleep (retry_delay w)] else [])) = 1"
    by (simp add: attempts_made_def is_post_def)
  with Suc.hyps(1) [OF n] Suc.hyps(2) show ?case
    unfolding ft attempts_made_append by simp
qed

lemma attempts_made_delivered_trace:
  "j \<le> k \<Longrightarrow> attempts_made (delivered_trace w j k) = nat (k + 1 - j)"
proof (induction "nat (k - j)" arbitrary: j)
  case 0
  then have "j = k" by simp
  then show ?case by (simp add: delivered_trace_def attempts_made_def is_post_def)
next
  case (Suc n)
  then have lt: "j < k" by simp
  have n: "n = nat (k - (j + 1))" using Suc.hyps(2) by simp
  have "[j..k - 1] = j # [j + 1..k - 1]" using lt by (simp add: upto_rec1)
  then have dt: "delivered_trace w j k = [Post j, Sleep (retry_delay w)] @ delivered_trace w (j + 1) k"
    by (simp add: delivered_trace_def)
  have "attempts_made [Post j, Sleep (retry_delay w)] = 1"
    by (simp add: attempts_made_def is_post_def)
  with Suc.hyps(1) [OF n] lt Suc.hyps(2) show ?case
    unfolding dt attempts_made_append by simp
qed

lemma upto_1_3: "[1..3] = [1, 2, 3 :: int]"
  by (simp add: upto_rec1)

lemma upto_1_2: "[1..2] = [1, 2 :: int]"
  by (simp add: upto_rec1)

lemma last_failed_trace:
  "j \<le> retry_attempts w \<Longrightarrow> last (failed_trace w j) = Post (retry_attempts w)"
proof -
  assume "j \<le> retry_attempts w"
  then have "[j..retry_attempts w] = [j..retry_attempts w - 1] @ [retry_attempts w]"
    by (simp add: upto_rec2)
  then show ?thesis by (simp add: failed_trace_def)
qed

lemma is_success_Status: "is_success (Status c) \<longleftrightarrow> c = 200 \<or> c = 201 \<or> c = 202"
  by (simp add: is_success_def)

text \<open>Why the delay must not be negative: \<^verbatim>\<open>time.sleep\<close> is outside the \<^verbatim>\<open>try\<close>, and its
  ValueError leaves \<^verbatim>\<open>send_alert\<close> after the first failed attempt.\<close>

lemma negative_delay_raises:
  "send_alert (default_sender\<lparr>retry_delay := - 1\<rparr>) dead_endpoint = (Inl ValueError, [Post 1])"
  by (simp add: send_alert_def default_sender_def dead_endpoint_def is_success_def Let_def upto_1_3)

text \<open>
  Claim C3 (delivery retry bound). With \<open>retry_attempts \<ge> 0\<close> and \<open>retry_delay \<ge> 0\<close>, against
  an endpoint on which every attempt fails (a status other than 200, 201, 202, a timeout,
  a connection error or any other exception), \<open>send_alert\<close> raises nothing and returns False
  after exactly \<open>retry_attempts\<close> POST requests, sleeping \<open>retry_delay\<close> after each attempt
  but the last: the trace ends with the last POST.
\<close>

theorem delivery_retry_bound:
  assumes "0 \<le> retry_attempts w"
    and "0 \<le> retry_delay w"
    and "\<forall>a. 1 \<le> a \<and> a \<le> retry_attempts w \<longrightarrow> \<not> is_success (endpoint a)"
  shows "send_alert w endpoint = (Inr False, failed_trace w 1) \<and>
         int (attempts_made (failed_trace w 1)) = retry_attempts w \<and>
         (1 \<le> retry_attempts w \<longrightarrow> last (failed_trace w 1) = Post (retry_attempts w))"
proof -
  have "send_alert w endpoint = (Inr False, failed_trace w 1)"
    unfolding send_alert_def using send_attempts_fail [OF assms(2,3), of "[]"] by simp
  moreover have "int (attempts_made (failed_trace w 1)) = retry_attempts w"
    using assms(1) by (simp add: attempts_made_failed_trace)
  ultimately show ?thesis by (simp add: last_failed_trace)
qed

theorem delivery_retry_bound_witness:
  "0 \<le> retry_attempts default_sender \<and> 0 \<le> retry_delay default_sender \<and>
   \<not> is_success (dead_endpoint 1) \<and> \<not> is_success (dead_endpoint 2) \<and>
   \<not> is_success (dead_endpoint 3) \<and>
   send_alert default_sender dead_endpoint
     = (Inr False, [Post 1, Sleep 2, Post 2, Sleep 2, Post 3]) \<and>
   attempts_made [Post 1, Sleep 2, Post 2, Sleep 2, Post 3] = 3"
proof -
  have a: "0 \<le> retry_attempts default_sender" "0 \<le> retry_delay default_sender"
    by (simp_all add: default_sender_def)
  have each: "\<not> is_success (dead_endpoint 1)" "\<not> is_success (dead_endpoint 2)"
    "\<not> is_success (dead_endpoint 3)"
    by (simp_all add: dead_endpoint_def is_success_def)
  have b: "\<forall>a. 1 \<le> a \<and> a \<le> retry_attempts default_sender \<longrightarrow> \<not> is_success (dead_endpoint a)"
    by (simp add: dead_endpoint_def is_success_def)
  have tr: "failed_trace default_sender 1 = [Post 1, Sleep 2, Post 2, Sleep 2, Post 3]"
    by (simp add: failed_trace_def default_sender_def upto_1_3)
  from delivery_retry_bound [OF a b] a each show ?thesis
    unfolding tr by (simp add: default_sender_def)
qed

text \<open>
  Claim C9 (delivery success path). With \<open>retry_delay \<ge> 0\<close>, if attempt \<open>k \<le> retry_attempts\<close>
  is answered with status 200, 201 or 202 and every earlier attempt fails, \<open>send_alert\<close>
  returns True after exactly \<open>k\<close> POST requests, the last event being the POST of attempt
  \<open>k\<close>. With three attempts and the answers 500, 500, 200 it returns True after exactly
  three POST requests.
\<close>

theorem delivery_success_path:
  "(\<forall>w endpoint k c.
      1 \<le> k \<and> k \<le> retry_attempts w \<and> 0 \<le> retry_delay w \<and>
      endpoint k = Status c \<and> c \<in> {200, 201, 202} \<and>
      (\<forall>a. 1 \<le> a \<and> a < k \<longrightarrow> \<not> is_success (endpoint a))
      \<longrightarrow> send_alert w endpoint = (Inr True, delivered_trace w 1 k) \<and>
          int (attempts_made (delivered_trace w 1 k)) = k \<and>
          last (delivered_trace w 1 k) = Post k)
   \<and> send_alert default_sender scenario_C_endpoint
       = (Inr True, [Post 1, Sleep 2, Post 2, Sleep 2, Post 3])
   \<and> attempts_made [Post 1, Sleep 2, Post 2, Sleep 2, Post 3] = 3"
proof (intro conjI allI impI)
  fix w :: webhook_sender and endpoint k c
  assume h: "1 \<le> k \<and> k \<le> retry_attempts w \<and> 0 \<le> retry_delay w \<and>
      endpoint k = Status c \<and> c \<in> {200, 201, 202} \<and>
      (\<forall>a. 1 \<le> a \<and> a < k \<longrightarrow> \<not> is_success (endpoint a))"
  then have ok: "is_success (endpoint k)" by (auto simp: is_success_Status)
  from h have d: "0 \<le> retry_delay w" and kn: "k \<le> retry_attempts w" and k1: "1 \<le> k"
    and fails: "\<forall>a. 1 \<le> a \<and> a < k \<longrightarrow> \<not> is_success (endpoint a)" by blast+
  show "send_alert w endpoint = (Inr True, delivered_trace w 1 k)"
    unfolding send_alert_def
    using send_attempts_deliver [OF d kn ok k1 fails, of "[]"] by simp
  show "int (attempts_made (delivered_trace w 1 k)) = k"
    using k1 by (simp add: attempts_made_delivered_trace)
  show "last (delivered_trace w 1 k) = Post k"
    by (simp add: delivered_trace_def)
next
  show "send_alert default_sender scenario_C_endpoint
       = (Inr True, [Post 1, Sleep 2, Post 2, Sleep 2, Post 3])"
    by (simp add: send_alert_def default_sender_def scenario_C_endpoint_def is_success_def Let_def
        upto_1_3)
next
  show "attempts_made [Post 1, Sleep 2, Post 2, Sleep 2, Post 3] = 3"
    by (simp add: attempts_made_def is_post_def)
qed

theorem delivery_success_path_witness:
  "1 \<le> (3 :: int) \<and> 3 \<le> retry_attempts default_sender \<and> 0 \<le> retry_delay default_sender \<and>
   scenario_C_endpoint 3 = Status 200 \<and> (200 :: int) \<in> {200, 201, 202} \<and>
   \<not> is_success (scenario_C_endpoint 1) \<and> \<not> is_success (scenario_C_endpoint 2) \<and>
   send_alert default_sender scenario_C_endpoint = (Inr True, delivered_trace default_sender 1 3) \<and>
   int (attempts_made (delivered_trace default_sender 1 3)) = 3 \<and>
   delivered_trace default_sender 1 3 = [Post 1, Sleep 2, Post 2, Sleep 2, Post 3]"
proof -
  have h: "1 \<le> (3 :: int) \<and> 3 \<le> retry_attempts default_sender \<and> 0 \<le> retry_delay default_sender \<and>
      scenario_C_endpoint 3 = Status 200 \<and> (200 :: int) \<in> {200, 201, 202} \<and>
      (\<forall>a. 1 \<le> a \<and> a < 3 \<longrightarrow> \<not> is_success (scenario_C_endpoint a))"
    by (simp add: default_sender_def scenario_C_endpoint_def is_success_def)
  have each: "\<not> is_success (scenario_C_endpoint 1)" "\<not> is_success (scenario_C_endpoint 2)"
    by (simp_all add: scenario_C_endpoint_def is_success_def)
  have tr: "delivered_trace default_sender 1 3 = [Post 1, Sleep 2, Post 2, Sleep 2, Post 3]"
    by (simp add: delivered_trace_def default_sender_def upto_1_2)
  from delivery_success_path have
    "send_alert default_sender scenario_C_endpoint = (Inr True, delivered_trace default_sender 1 3) \<and>
     int (attempts_made (delivered_trace default_sender 1 3)) = 3"
    using h by blast
  with h each tr show ?thesis by blast
qed

lemma scan_scores_foldl:
  "scs = drop i (scores out) \<Longrightarrow>
   scan_scores thr p out ts i scs acc =
     foldl (keep_better thr) acc (map (detection_at p out ts) [i..<length (scores out)])"
proof (induction scs arbitrary: i acc)
  case Nil
  then have "length (scores out) \<le> i" by simp
  then show ?case by simp
next
  case (Cons sc scs)
  obtain bs bd where acc: "acc = (bs, bd)" by (cases acc)
  from Cons.prems have i: "i < length (scores out)"
    by (metis drop_all leI list.distinct(1))
  with Cons.prems have sc: "sc = scores out ! i" and rest: "scs = drop (Suc i) (scores out)"
    by (simp_all add: Cons_nth_drop_Suc [symmetric])
  have up: "[i..<length (scores out)] = i # [Suc i..<length (scores out)]"
    using i by (simp add: upt_conv_Cons)
  show ?case
    unfolding up acc
    by (simp add: Cons.IH [OF rest] keep_better_def detection_at_def sc)
qed

lemma scan_prompts_foldl:
  "scan_prompts thr processor ts ps acc = Inr r \<Longrightarrow>
   r = foldl (keep_better thr) acc (frame_candidates processor ts ps)"
proof (induction ps arbitrary: acc)
  case Nil
  then show ?case by (simp add: frame_candidates_def)
next
  case (Cons p ps)
  from Cons.prems obtain out where out: "processor p = Inr out"
    and rest: "scan_prompts thr processor ts ps (scan_scores thr p out ts 0 (scores out) acc) = Inr r"
    by (auto split: sum.splits)
  have fc: "frame_candidates processor ts (p # ps) =
      map (detection_at p out ts) [0..<length (scores out)] @ frame_candidates processor ts ps"
    by (simp add: frame_candidates_def out)
  from Cons.IH [OF rest] show ?case
    by (simp add: fc scan_scores_foldl)
qed

lemma foldl_keep_better:
  "(case snd (foldl (keep_better thr) (0, None) xs) of
      None \<Rightarrow> fst (foldl (keep_better thr) (0, None) xs) = 0 \<and>
              (\<forall>x \<in> set xs. \<not> (thr < score x \<and> 0 < score x))
    | Some c \<Rightarrow> fst (foldl (keep_better thr) (0, None) xs) = score c \<and>
                thr < score c \<and> 0 < score c \<and>
                (\<exists>ys zs. xs = ys @ c # zs \<and> (\<forall>y \<in> set ys. score y < score c) \<and>
                         (\<forall>z \<in> set zs. score z \<le> score c)))"
proof (induction xs rule: rev_induct)
  case Nil
  then show ?case by simp
next
  case (snoc x xs)
  let ?r = "foldl (keep_better thr) (0, None) xs"
  show ?case
  proof (cases "thr < score x \<and> fst ?r < score x")
    case True
    then have new: "foldl (keep_better thr) (0, None) (xs @ [x]) = (score x, Some x)"
      by (simp add: keep_better_def)
    have before: "\<forall>y \<in> set xs. score y < score x"
    proof (cases "snd ?r")
      case None
      with snoc.IH True show ?thesis by (auto simp: not_less intro: le_less_trans)
    next
      case (Some c)
      with snoc.IH obtain ys zs where "fst ?r = score c" "xs = ys @ c # zs"
        "\<forall>y \<in> set ys. score y < score c" "\<forall>z \<in> set zs. score z \<le> score c"
        by auto
      with True show ?thesis by (auto intro: le_less_trans less_trans)
    qed
    have pos: "0 < score x"
    proof (cases "snd ?r")
      case None
      with snoc.IH True show ?thesis by simp
    next
      case (Some c)
      with snoc.IH True show ?thesis by (auto intro: less_trans)
    qed
    have "xs @ [x] = xs @ x # [] \<and> (\<forall>y \<in> set xs. score y < score x) \<and>
        (\<forall>z \<in> set []. score z \<le> score x)" using before by simp
    then have ex: "\<exists>ys zs. xs @ [x] = ys @ x # zs \<and> (\<forall>y \<in> set ys. score y < score x) \<and>
        (\<forall>z \<in> set zs. score z \<le> score x)" by (intro exI)
    show ?thesis unfolding new snd_conv fst_conv option.case using True pos ex by blast
  next
    case False
    then have same: "foldl (keep_better thr) (0, None) (xs @ [x]) = ?r"
      by (auto simp: keep_better_def)
    show ?thesis
    proof (cases "snd ?r")
      case None
      with snoc.IH have r0: "fst ?r = 0" and old: "\<forall>y \<in> set xs. \<not> (thr < score y \<and> 0 < score y)"
        by simp_all
      from False r0 have "\<not> (thr < score x \<and> 0 < score x)" by simp
      with old have "\<forall>y \<in> set (xs @ [x]). \<not> (thr < score y \<and> 0 < score y)" by simp
      with r0 show ?thesis unfolding same None option.case by blast
    next
      case (Some c)
      with snoc.IH obtain ys zs where c: "fst ?r = score c" "thr < score c" "0 < score c"
        and dec: "xs = ys @ c # zs" "\<forall>y \<in> set ys. score y < score c"
          "\<forall>z \<in> set zs. score z \<le> score c"
        by auto
      from False c have "score x \<le> score c" by (auto simp: not_less intro: less_imp_le order_trans)
      with dec have "xs @ [x] = ys @ c # (zs @ [x]) \<and> (\<forall>y \<in> set ys. score y < score c) \<and>
          (\<forall>z \<in> set (zs @ [x]). score z \<le> score c)" by simp
      then have "\<exists>ys zs. xs @ [x] = ys @ c # zs \<and> (\<forall>y \<in> set ys. score y < score c) \<and>
          (\<forall>z \<in> set zs. score z \<le> score c)" by (intro exI)
      with c show ?thesis unfolding same Some option.case by blast
    qed
  qed
qed

lemma frame_candidates_member:
  "c \<in> set (frame_candidates processor ts ps) \<Longrightarrow>
   \<exists>p out i. p \<in> set ps \<and> processor p = Inr out \<and> i < length (scores out) \<and>
     c = detection_at p out ts i"
proof -
  assume "c \<in> set (frame_candidates processor ts ps)"
  then obtain p where p: "p \<in> set ps"
    and c: "c \<in> set (case processor p of Inl e \<Rightarrow> []
                      | Inr out \<Rightarrow> map (detection_at p out ts) [0..<length (scores out)])"
    by (auto simp: frame_candidates_def)
  show ?thesis
  proof (cases "processor p")
    case (Inl e)
    with c show ?thesis by simp
  next
    case (Inr out)
    with c obtain i where "i < length (scores out)" "c = detection_at p out ts i" by auto
    with p Inr show ?thesis by blast
  qed
qed

text \<open>
  Claim C5 (best-sample selection), as amended. When \<open>detect_sleeping_person\<close> returns an
  alert, the score, box and prompt of the alert are those of one detection that the
  processor returned for the current frame: for some prompt \<open>p\<close> and index \<open>i\<close>, the score is
  \<open>scores ! i\<close> of the output for \<open>p\<close>, the box is \<open>boxes ! i\<close> of the same output (None when
  there is no such box) and the prompt is \<open>p\<close>. Its score is above the threshold, strictly
  above the score of every detection that the loops visit before it and at least the score
  of every one after it, so no score of this frame is higher. It is the sample just
  appended, the last one of the history window, with the instant of the call.
\<close>

theorem alert_carries_frame_best:
  assumes "detect_sleeping_person d processor ts = (Some a, d')"
  shows "detections_history d' \<noteq> [] \<and>
         confidence_score a = score (last (detections_history d')) \<and>
         bounding_box a = box (last (detections_history d')) \<and>
         prompt_used a = prompt (last (detections_history d')) \<and>
         timestamp (last (detections_history d')) = ts \<and>
         confidence_threshold d < confidence_score a \<and>
         (\<forall>p \<in> set sleep_prompts. \<forall>out. processor p = Inr out \<longrightarrow>
            (\<forall>sc \<in> set (scores out). sc \<le> confidence_score a)) \<and>
         (\<exists>p out i ys zs.
            p \<in> set sleep_prompts \<and> processor p = Inr out \<and> i < length (scores out) \<and>
            confidence_score a = scores out ! i \<and>
            bounding_box a = (if i < length (boxes out) then Some (boxes out ! i) else None) \<and>
            prompt_used a = p \<and>
            frame_candidates processor ts sleep_prompts = ys @ detection_at p out ts i # zs \<and>
            (\<forall>y \<in> set ys. score y < confidence_score a) \<and>
            (\<forall>z \<in> set zs. score z \<le> confidence_score a))"
proof -
  let ?d1 = "d\<lparr>last_check_time := Some ts\<rparr>"
  let ?xs = "frame_candidates processor ts sleep_prompts"
  from detect_fire [OF assms] obtain bs c where
    scan: "scan_prompts (confidence_threshold d) processor ts sleep_prompts (0, None)
           = Inr (bs, Some c)"
    and a: "a = create_alert (add_to_history ?d1 (with_orientation c Horizontal))
             (with_orientation c Horizontal) ts"
    and d': "d' = (add_to_history ?d1 (with_orientation c Horizontal))
              \<lparr>alert_cooldown_until := Some (ts + cooldown_seconds)\<rparr>"
    by blast
  have hist: "detections_history d' \<noteq> []"
    "last (detections_history d') = with_orientation c Horizontal"
    using add_to_history_last [of ?d1 "with_orientation c Horizontal"] by (simp_all add: d')
  have ts: "timestamp c = ts"
    by (rule scan_prompts_timestamp [OF _ scan]) simp
  have ok0: "best_ok (confidence_threshold d) (0, None)" by (simp add: best_ok_def)
  from scan_prompts_best [OF ok0 scan]
  have best: "score c = bs" "confidence_threshold d < score c"
    and all: "\<forall>p \<in> set sleep_prompts. \<forall>out. processor p = Inr out \<longrightarrow>
            (\<forall>sc \<in> set (scores out). sc \<le> confidence_threshold d \<or> sc \<le> bs)"
    by (simp_all add: best_ok_def)
  have fields: "confidence_score a = score c" "bounding_box a = box c" "prompt_used a = prompt c"
    by (simp_all add: a create_alert_def with_orientation_def)
  have max: "\<forall>p \<in> set sleep_prompts. \<forall>out. processor p = Inr out \<longrightarrow>
            (\<forall>sc \<in> set (scores out). sc \<le> confidence_score a)"
    using all best unfolding fields by (metis less_imp_le order_trans)
  from scan_prompts_foldl [OF scan]
  have fold: "foldl (keep_better (confidence_threshold d)) (0, None) ?xs = (bs, Some c)" by simp
  from foldl_keep_better [of "confidence_threshold d" ?xs]
  obtain ys zs where dec: "?xs = ys @ c # zs" "\<forall>y \<in> set ys. score y < score c"
    "\<forall>z \<in> set zs. score z \<le> score c"
    unfolding fold by auto
  then have "c \<in> set ?xs" by simp
  from frame_candidates_member [OF this] obtain p out i where
    p: "p \<in> set sleep_prompts" "processor p = Inr out" "i < length (scores out)"
    and c: "c = detection_at p out ts i"
    by blast
  have "confidence_score a = scores out ! i"
    "bounding_box a = (if i < length (boxes out) then Some (boxes out ! i) else None)"
    "prompt_used a = p"
    unfolding fields c by (simp_all add: detection_at_def)
  with p dec have "\<exists>p out i ys zs.
            p \<in> set sleep_prompts \<and> processor p = Inr out \<and> i < length (scores out) \<and>
            confidence_score a = scores out ! i \<and>
            bounding_box a = (if i < length (boxes out) then Some (boxes out ! i) else None) \<and>
            prompt_used a = p \<and>
            frame_candidates processor ts sleep_prompts = ys @ detection_at p out ts i # zs \<and>
            (\<forall>y \<in> set ys. score y < confidence_score a) \<and>
            (\<forall>z \<in> set zs. score z \<le> confidence_score a)"
    unfolding fields(1) c by blast
  with hist ts best fields max show ?thesis
    by (simp add: with_orientation_def)
qed

theorem alert_carries_frame_best_witness:
  "detect_sleeping_person one_sample_state lying_frame 10 = (Some fired_alert, fired_state) \<and>
   confidence_score fired_alert = score (last (detections_history fired_state)) \<and>
   bounding_box fired_alert = box (last (detections_history fired_state)) \<and>
   prompt_used fired_alert = prompt (last (detections_history fired_state)) \<and>
   timestamp (last (detections_history fired_state)) = 10 \<and>
   confidence_threshold one_sample_state < confidence_score fired_alert \<and>
   confidence_score fired_alert = 1 / 2 \<and>
   bounding_box fired_alert = Some lying_box \<and>
   prompt_used fired_alert = ''person sleeping'' \<and>
   lying_frame ''person sleeping'' = Inr \<lparr>masks = [], scores = [1 / 2], boxes = [lying_box]\<rparr>"
proof -
  have fire: "detect_sleeping_person one_sample_state lying_frame 10 = (Some fired_alert, fired_state)"
    by (rule one_sample_state_fires)
  have "confidence_score fired_alert = 1 / 2" "bounding_box fired_alert = Some lying_box"
    "prompt_used fired_alert = ''person sleeping''"
    by (simp_all add: fired_alert_def create_alert_def sample_at_def)
  moreover have "lying_frame ''person sleeping'' = Inr \<lparr>masks = [], scores = [1 / 2], boxes = [lying_box]\<rparr>"
    by (simp add: lying_frame_def frame_with_def)
  ultimately show ?thesis using fire alert_carries_frame_best [OF fire] by blast
qed

lemma recent_detections_filter:
  "recent_detections d now =
     filter (\<lambda>x. now - of_int (persistence_seconds d) < timestamp x \<and> orientation x = Horizontal)
       (detections_history d)"
  by (simp add: recent_detections_def Let_def)

lemma scenario_A_run:
  "fst (run (init_detector (3 / 10) 10 2)
         [(lying_frame, 0), (lying_frame, 2), (lying_frame, 4), (lying_frame, 6), (lying_frame, 8)])
   = [None, None, None,
      Some (create_alert
        ((init_detector (3 / 10) 10 2)\<lparr>detections_history := map (\<lambda>t. sample_at t (1 / 2)) [0, 2, 4, 6]\<rparr>)
        (sample_at 6 (1 / 2)) 6),
      None]"
  by (simp add: lying_frame_def detector_defs)

lemma scenario_B_run:
  "fst (run (init_detector (3 / 10) 10 2)
         [(lying_frame, 0), (lying_frame, 2), (lying_frame, 4), (empty_frame, 8)])
   = [None, None, None, None]"
  by (simp add: lying_frame_def empty_frame_def detector_defs)

lemma scenario_B_check:
  "check_persistence
     (snd (run (init_detector (3 / 10) 10 2) [(lying_frame, 0), (lying_frame, 2), (lying_frame, 4)])) 8
   = Inr False"
  by (simp add: lying_frame_def detector_defs)

lemma three_sample_state_fires:
  "detect_sleeping_person three_sample_state lying_frame 6 = (Some fourth_alert, fourth_state)"
  by (simp add: three_sample_state_def fourth_state_def fourth_alert_def lying_frame_def detector_defs)

text \<open>
  Claim C2 (persistence count threshold), as amended. \<open>_check_persistence\<close> answers True
  exactly when the history window holds at least two samples, \<open>check_interval\<close> is not 0 and
  the number of horizontal samples with timestamp later than \<open>now - persistence_seconds\<close> is
  at least \<open>ceil (persistence_seconds / check_interval * 0.7)\<close>; \<open>detect_sleeping_person\<close>
  returns an alert only when that number, counted in the window it leaves, reaches this
  bound. For 10 and 2 the bound is 4: of five qualifying samples fed at 0, 2, 4, 6, 8 the
  fourth gives the alert at instant 6 and the call at instant 8, in the cooldown, gives
  None; three qualifying samples at 0, 2, 4 give no alert, and the check at 8 on their
  window answers False.
\<close>

theorem persistence_count_threshold:
  "(\<forall>d now. check_persistence d now = Inr True \<longleftrightarrow>
      2 \<le> length (detections_history d) \<and> check_interval d \<noteq> 0 \<and>
      spec_required (persistence_seconds d) (check_interval d)
        \<le> int (length (filter (\<lambda>x. now - of_int (persistence_seconds d) < timestamp x \<and>
                                           orientation x = Horizontal)
                            (detections_history d))))
   \<and> (\<forall>d processor ts a d'. detect_sleeping_person d processor ts = (Some a, d') \<longrightarrow>
      spec_required (persistence_seconds d) (check_interval d)
        \<le> int (length (filter (\<lambda>x. ts - of_int (persistence_seconds d) < timestamp x \<and>
                                           orientation x = Horizontal)
                            (detections_history d'))))
   \<and> spec_required 10 2 = 4
   \<and> fst (run (init_detector (3 / 10) 10 2)
         [(lying_frame, 0), (lying_frame, 2), (lying_frame, 4), (lying_frame, 6), (lying_frame, 8)])
      = [None, None, None,
         Some (create_alert
           ((init_detector (3 / 10) 10 2)\<lparr>detections_history := map (\<lambda>t. sample_at t (1 / 2)) [0, 2, 4, 6]\<rparr>)
           (sample_at 6 (1 / 2)) 6),
         None]
   \<and> fst (run (init_detector (3 / 10) 10 2)
         [(lying_frame, 0), (lying_frame, 2), (lying_frame, 4), (empty_frame, 8)])
      = [None, None, None, None]
   \<and> check_persistence
       (snd (run (init_detector (3 / 10) 10 2) [(lying_frame, 0), (lying_frame, 2), (lying_frame, 4)])) 8
      = Inr False"
proof (intro conjI allI impI)
  fix d :: sleeping_detector and now :: instant
  show "check_persistence d now = Inr True \<longleftrightarrow>
      2 \<le> length (detections_history d) \<and> check_interval d \<noteq> 0 \<and>
      spec_required (persistence_seconds d) (check_interval d)
        \<le> int (length (filter (\<lambda>x. now - of_int (persistence_seconds d) < timestamp x \<and>
                                           orientation x = Horizontal)
                            (detections_history d)))"
    unfolding check_persistence_iff recent_detections_filter ..
next
  fix d processor ts a d'
  assume "detect_sleeping_person d processor ts = (Some a, d')"
  from detect_fire [OF this] obtain c where
    cp: "check_persistence
         (add_to_history (d\<lparr>last_check_time := Some ts\<rparr>) (with_orientation c Horizontal)) ts
         = Inr True"
    and d': "d' = (add_to_history (d\<lparr>last_check_time := Some ts\<rparr>) (with_orientation c Horizontal))
              \<lparr>alert_cooldown_until := Some (ts + cooldown_seconds)\<rparr>"
    by blast
  from cp show "spec_required (persistence_seconds d) (check_interval d)
        \<le> int (length (filter (\<lambda>x. ts - of_int (persistence_seconds d) < timestamp x \<and>
                                           orientation x = Horizontal)
                            (detections_history d')))"
    by (simp add: check_persistence_iff recent_detections_filter d')
next
  show "spec_required 10 2 = 4" by (rule spec_required_10_2)
next
  show "fst (run (init_detector (3 / 10) 10 2)
         [(lying_frame, 0), (lying_frame, 2), (lying_frame, 4), (lying_frame, 6), (lying_frame, 8)])
      = [None, None, None,
         Some (create_alert
           ((init_detector (3 / 10) 10 2)\<lparr>detections_history := map (\<lambda>t. sample_at t (1 / 2)) [0, 2, 4, 6]\<rparr>)
           (sample_at 6 (1 / 2)) 6),
         None]"
    by (rule scenario_A_run)
next
  show "fst (run (init_detector (3 / 10) 10 2)
         [(lying_frame, 0), (lying_frame, 2), (lying_frame, 4), (empty_frame, 8)])
      = [None, None, None, None]"
    by (rule scenario_B_run)
next
  show "check_persistence
       (snd (run (init_detector (3 / 10) 10 2) [(lying_frame, 0), (lying_frame, 2), (lying_frame, 4)])) 8
      = Inr False"
    by (rule scenario_B_check)
qed

theorem persistence_count_threshold_witness:
  "detect_sleeping_person three_sample_state lying_frame 6 = (Some fourth_alert, fourth_state) \<and>
   spec_required (persistence_seconds three_sample_state) (check_interval three_sample_state)
     \<le> int (length (filter (\<lambda>x. 6 - of_int (persistence_seconds three_sample_state) < timestamp x \<and>
                                        orientation x = Horizontal)
                         (detections_history fourth_state))) \<and>
   spec_required (persistence_seconds three_sample_state) (check_interval three_sample_state) = 4 \<and>
   length (filter (\<lambda>x. 6 - of_int (persistence_seconds three_sample_state) < timestamp x \<and>
                        orientation x = Horizontal)
            (detections_history fourth_state)) = 4 \<and>
   check_persistence fourth_state 6 = Inr True"
proof -
  note main = persistence_count_threshold
  have fire: "detect_sleeping_person three_sample_state lying_frame 6 = (Some fourth_alert, fourth_state)"
    by (rule three_sample_state_fires)
  have b: "spec_required (persistence_seconds three_sample_state) (check_interval three_sample_state)
     \<le> int (length (filter (\<lambda>x. 6 - of_int (persistence_seconds three_sample_state) < timestamp x \<and>
                                        orientation x = Horizontal)
                         (detections_history fourth_state)))"
    by (rule main [THEN conjunct2, THEN conjunct1, rule_format, OF fire])
  have c: "spec_required (persistence_seconds three_sample_state) (check_interval three_sample_state) = 4"
    using main [THEN conjunct2, THEN conjunct2, THEN conjunct1]
    by (simp add: three_sample_state_def init_detector_def)
  have e: "length (filter (\<lambda>x. 6 - of_int (persistence_seconds three_sample_state) < timestamp x \<and>
                        orientation x = Horizontal)
            (detections_history fourth_state)) = 4"
    by (simp add: three_sample_state_def fourth_state_def init_detector_def sample_at_def)
  have f: "check_persistence fourth_state 6 = Inr True"
    unfolding main [THEN conjunct1, rule_format]
    by (simp add: fourth_state_def init_detector_def sample_at_def spec_required_10_2)
  from fire b c e f show ?thesis by blast
qed

theorem persistence_scenario_counterexample:
  "fst (run (init_detector (3 / 10) 10 2)
         [(lying_frame, 0), (lying_frame, 2), (lying_frame, 4), (lying_frame, 6), (lying_frame, 8)]) ! 4
     = None \<and>
   fst (run (init_detector (3 / 10) 10 2)
         [(lying_frame, 0), (lying_frame, 2), (lying_frame, 4), (lying_frame, 6), (lying_frame, 8)]) ! 3
     \<noteq> None \<and>
   snd (run (init_detector (3 / 10) 10 2)
         [(lying_frame, 0), (lying_frame, 2), (lying_frame, 4), (lying_frame, 6), (lying_frame, 8)])
     = (init_detector (3 / 10) 10 2)
         \<lparr>detections_history := map (\<lambda>t. sample_at t (1 / 2)) [0, 2, 4, 6],
          last_check_time := Some 8, alert_cooldown_until := Some 36\<rparr>"
proof -
  have st: "snd (run (init_detector (3 / 10) 10 2)
         [(lying_frame, 0), (lying_frame, 2), (lying_frame, 4), (lying_frame, 6), (lying_frame, 8)])
     = (init_detector (3 / 10) 10 2)
         \<lparr>detections_history := map (\<lambda>t. sample_at t (1 / 2)) [0, 2, 4, 6],
          last_check_time := Some 8, alert_cooldown_until := Some 36\<rparr>"
    by (simp add: lying_frame_def detector_defs)
  have r4: "fst (run (init_detector (3 / 10) 10 2)
         [(lying_frame, 0), (lying_frame, 2), (lying_frame, 4), (lying_frame, 6), (lying_frame, 8)]) ! 4
     = None"
    unfolding scenario_A_run by simp
  have r3: "fst (run (init_detector (3 / 10) 10 2)
         [(lying_frame, 0), (lying_frame, 2), (lying_frame, 4), (lying_frame, 6), (lying_frame, 8)]) ! 3
     \<noteq> None"
    unfolding scenario_A_run by simp
  from r4 r3 st show ?thesis by (intro conjI)
qed

end
